theory Spec2Isabelle
  imports Complex_Main
begin

section \<open>The canvas editor of \<open>src/components/ImageEditor.tsx\<close>\<close>

text \<open>
  The editor is a React component whose state is a handful of \<open>useState\<close> cells and
  whose event handlers replace them. The handlers are embedded as functions from the
  state before the event to the state after it. JavaScript numbers that hold array
  indices and pixel coordinates are integers here; the numbers of the view transform
  are rationals (every finite double is one).
\<close>

subsection \<open>Data\<close>

datatype Tool = Brush | Eraser | Pan

record Point =
  px :: rat
  py :: rat

record ViewTransform =
  scale :: rat
  offset :: Point

text \<open>
  A JavaScript string is a sequence of UTF-16 code units, here a list of numbers. Text
  that the program builds from ASCII literals and decimal digits alone (the DXF document,
  a MIME type, an extension) is written as a \<open>string\<close>.
  \<open>DesignOptions\<close> is the metadata the host passes in; the editor reads \<open>material\<close>
  and \<open>designType\<close> only.
\<close>

record DesignOptions =
  designType :: "nat list"
  material :: "nat list"
  width :: nat
  height :: nat
  depth :: nat
  outputFormat :: "nat list"
  prompt :: "nat list"
  outlineThickness :: nat

text \<open>
  \<open>ImageData\<close>: \<open>data\<close> is the \<open>Uint8ClampedArray\<close> of RGBA bytes, four per pixel,
  rows from top to bottom.
\<close>

record ImageData =
  width :: nat
  height :: nat
  data :: "nat list"

text \<open>
  The component's state. \<open>canvas\<close> is \<open>canvasRef.current\<close> with the pixels it holds
  (\<open>None\<close> while no canvas element is mounted); \<open>hasContext\<close> says whether
  the \<open>context\<close> cell holds a 2D drawing context (\<open>False\<close> for \<open>null\<close>).
\<close>

record EditorState =
  canvas :: "ImageData option"
  hasContext :: bool
  isDrawing :: bool
  tool :: Tool
  lineWidth :: nat
  history :: "ImageData list"
  historyIndex :: int
  isDownloadMenuOpen :: bool
  viewTransform :: ViewTransform
  isPanning :: bool

definition identityTransform :: ViewTransform where
  "identityTransform = \<lparr>scale = 1, offset = \<lparr>px = 0, py = 0\<rparr>\<rparr>"

text \<open>The state of the \<open>useState\<close> initialisers, before any effect has run.\<close>

definition initialState :: EditorState where
  "initialState =
     \<lparr>canvas = None, hasContext = False, isDrawing = False, tool = Brush, lineWidth = 5,
      history = [], historyIndex = - 1, isDownloadMenuOpen = False,
      viewTransform = identityTransform, isPanning = False\<rparr>"

subsection \<open>History stack\<close>

text \<open>
  \<open>Array.prototype.slice(0, e)\<close>: a negative end counts from the end of the array,
  and the end is clamped to the array.
\<close>

definition slice0 :: "'a list \<Rightarrow> int \<Rightarrow> 'a list" where
  "slice0 xs e =
     (let len = int (length xs);
          final = (if e < 0 then max (len + e) 0 else min e len)
      in take (nat final) xs)"

text \<open>
  \<open>saveState\<close> (the snapshot): returns at once without a context or a canvas; otherwise
  reads the canvas back, keeps the entries up to the current index, pushes the
  read-back and points the index at it.
\<close>

definition saveState :: "EditorState \<Rightarrow> EditorState" where
  "saveState s =
     (if \<not> hasContext s then s
      else case canvas s of
        None \<Rightarrow> s
      | Some imageData \<Rightarrow>
          (let newHistory = slice0 (history s) (historyIndex s + 1) @ [imageData]
           in s\<lparr>history := newHistory, historyIndex := int (length newHistory) - 1\<rparr>))"

definition handleUndo :: "EditorState \<Rightarrow> EditorState" where
  "handleUndo s =
     (if historyIndex s > 0 then s\<lparr>historyIndex := historyIndex s - 1\<rparr> else s)"

definition handleResetEdits :: "EditorState \<Rightarrow> EditorState" where
  "handleResetEdits s =
     (if length (history s) > 0 then s\<lparr>historyIndex := 0\<rparr> else s)"

subsection \<open>Loading a source image\<close>

datatype error = TypeError

text \<open>A canvas whose size has just been set: every pixel transparent black.\<close>

definition blank :: "nat \<Rightarrow> nat \<Rightarrow> ImageData" where
  "blank w h = \<lparr>width = w, height = h, data = replicate (4 * w * h) 0\<rparr>"

text \<open>
  The effect on \<open>src\<close> together with the \<open>image.onload\<close> it installs. It does nothing
  without a canvas element. \<open>ctx\<close> says whether \<open>canvas.getContext('2d')\<close> gave a
  context; \<open>drawImage\<close> is the browser's compositing of the decoded image onto the
  canvas pixels. The canvas is resized (and so cleared) only when the image's
  dimensions differ from its own. With no context \<open>ctx!.getImageData\<close> throws. The
  three setters at the end run whatever the dimensions were.
\<close>

definition loadImage ::
  "bool \<Rightarrow> (ImageData \<Rightarrow> ImageData \<Rightarrow> ImageData) \<Rightarrow> ImageData \<Rightarrow> EditorState
     \<Rightarrow> error + EditorState" where
  "loadImage ctx drawImage img s =
     (case canvas s of
        None \<Rightarrow> Inr s
      | Some cv \<Rightarrow>
          (let resized =
                 (if width cv \<noteq> width img \<or> height cv \<noteq> height img
                  then blank (width img) (height img) else cv)
           in if \<not> ctx then Inl TypeError
              else (let initialImageData = drawImage resized img
                    in Inr (s\<lparr>canvas := Some initialImageData, hasContext := True,
                              history := [initialImageData], historyIndex := 0,
                              viewTransform := identityTransform\<rparr>))))"

subsection \<open>JavaScript numbers\<close>

text \<open>
  A JavaScript number is a double, and every arithmetic operation gives the double
  nearest to its exact result. The handlers of the view transform take this rounding as
  a parameter \<open>rnd\<close>, applied to the result of each operation and to each decimal
  literal: \<open>exact\<close> is arithmetic without rounding, \<open>binary64\<close> is the rounding of
  IEEE 754 double precision (to nearest, ties to even) for values of normal magnitude;
  it does not model subnormal numbers, infinities or NaN.
\<close>

definition exact :: "rat \<Rightarrow> rat" where
  "exact v = v"

text \<open>
  \<open>normalise m e\<close> scales a positive \<open>m\<close> by powers of two into the range of a 53-bit
  significand and counts the exponent.
\<close>

function normalise :: "rat \<Rightarrow> int \<Rightarrow> rat \<times> int" where
  "normalise m e =
     (if m \<le> 0 then (m, e)
      else if 2 ^ 53 \<le> m then normalise (m / 2) (e + 1)
      else if m < 2 ^ 52 then normalise (m * 2) (e - 1)
      else (m, e))"
  by pat_completeness auto
termination
proof (relation "measure (\<lambda>(m, e). if 2 ^ 53 \<le> m then nat \<lfloor>m\<rfloor> else nat \<lceil>2 ^ 53 / m\<rceil>)")
  show "wf (measure (\<lambda>(m, e). if 2 ^ 53 \<le> m then nat \<lfloor>m\<rfloor> else nat \<lceil>2 ^ 53 / m\<rceil>))"
    by simp
next
  fix m :: rat and e :: int
  assume "\<not> m \<le> 0" and big: "2 ^ 53 \<le> m"
  have "\<lfloor>m / 2\<rfloor> < \<lfloor>m\<rfloor>"
    using big by (simp add: floor_less_iff) linarith
  moreover have "\<lceil>2 ^ 53 / (m / 2)\<rceil> < \<lfloor>m\<rfloor>" if "\<not> 2 ^ 53 \<le> m / 2"
  proof -
    have "2 ^ 53 / (m / 2) \<le> 2" using big by (simp add: field_simps)
    then have "\<lceil>2 ^ 53 / (m / 2)\<rceil> \<le> 2" by (simp add: ceiling_le_iff)
    moreover have "2 < \<lfloor>m\<rfloor>" using big by (simp add: less_floor_iff)
    ultimately show ?thesis by linarith
  qed
  ultimately show "((m / 2, e + 1), (m, e)) \<in> measure (\<lambda>(m, e). if 2 ^ 53 \<le> m then nat \<lfloor>m\<rfloor> else nat \<lceil>2 ^ 53 / m\<rceil>)"
    using big by (auto simp: less_floor_iff)
next
  fix m :: rat and e :: int
  assume pos: "\<not> m \<le> 0" and "\<not> 2 ^ 53 \<le> m" and small: "m < 2 ^ 52"
  have nb: "\<not> 2 ^ 53 \<le> m * 2" using small by simp
  have mpos: "0 < m" using pos by simp
  have z: "1 < 2 ^ 52 / m" using mpos small by (simp add: pos_less_divide_eq)
  have eq: "2 ^ 53 / m = 2 * (2 ^ 52 / m)" by simp
  have "2 ^ 53 / (m * 2) = 2 ^ 52 / m" by simp
  moreover have "\<lceil>2 ^ 52 / m\<rceil> < \<lceil>2 * (2 ^ 52 / m)\<rceil>"
  proof -
    have "2 ^ 52 / m + 1 \<le> 2 * (2 ^ 52 / m)" using z by simp
    then have "\<lceil>2 ^ 52 / m + 1\<rceil> \<le> \<lceil>2 * (2 ^ 52 / m)\<rceil>" by (rule ceiling_mono)
    then show ?thesis by simp
  qed
  moreover have "0 < \<lceil>2 * (2 ^ 52 / m)\<rceil>" using z mpos by (simp add: ceiling_less_iff)
  ultimately show "((m * 2, e - 1), (m, e)) \<in> measure (\<lambda>(m, e). if 2 ^ 53 \<le> m then nat \<lfloor>m\<rfloor> else nat \<lceil>2 ^ 53 / m\<rceil>)"
    using nb small eq by (auto simp del: ceiling_divide_eq_div_numeral)
qed


declare normalise.simps [simp del]

definition roundHalfEven :: "rat \<Rightarrow> int" where
  "roundHalfEven q =
     (let n = \<lfloor>q\<rfloor>; r = q - of_int n
      in if r < 1 / 2 then n else if 1 / 2 < r then n + 1 else if even n then n else n + 1)"

definition binary64 :: "rat \<Rightarrow> rat" where
  "binary64 v =
     (if v = 0 then 0
      else case normalise \<bar>v\<bar> 0 of
        (m, e) \<Rightarrow> sgn v * of_int (roundHalfEven m) * 2 powi e)"

subsection \<open>View transform\<close>

text \<open>
  Division by a zero scale gives an infinity or NaN in JavaScript and \<open>0\<close> here; the
  scale is never zero once it has been clamped.
\<close>

definition getTransformedPoint :: "(rat \<Rightarrow> rat) \<Rightarrow> ViewTransform \<Rightarrow> rat \<Rightarrow> rat \<Rightarrow> Point" where
  "getTransformedPoint rnd vt x y =
     \<lparr>px = rnd (rnd (x - px (offset vt)) / scale vt),
      py = rnd (rnd (y - py (offset vt)) / scale vt)\<rparr>"

record WheelEvent =
  offsetX :: rat
  offsetY :: rat
  deltaY :: rat

definition handleWheel :: "(rat \<Rightarrow> rat) \<Rightarrow> WheelEvent \<Rightarrow> ViewTransform \<Rightarrow> ViewTransform" where
  "handleWheel rnd e vt =
     (let zoomFactor = rnd (11 / 10);
          newScale = (if deltaY e < 0 then rnd (scale vt * zoomFactor)
                      else rnd (scale vt / zoomFactor));
          clampedScale = max (rnd (1 / 10)) (min newScale 10);
          mousePoint = \<lparr>px = offsetX e, py = offsetY e\<rparr>;
          newOffsetX = rnd (px mousePoint
                            - rnd (rnd (px mousePoint - px (offset vt)) * rnd (clampedScale / scale vt)));
          newOffsetY = rnd (py mousePoint
                            - rnd (rnd (py mousePoint - py (offset vt)) * rnd (clampedScale / scale vt)))
      in \<lparr>scale = clampedScale, offset = \<lparr>px = newOffsetX, py = newOffsetY\<rparr>\<rparr>)"

datatype Direction = ZoomIn | ZoomOut | ZoomReset

text \<open>
  \<open>handleZoomChange\<close>: \<open>mounted\<close> says whether \<open>canvasRef.current\<close> is there;
  \<open>clientWidth\<close> and \<open>clientHeight\<close> are those of the canvas's parent element.
\<close>

definition handleZoomChange ::
  "(rat \<Rightarrow> rat) \<Rightarrow> bool \<Rightarrow> rat \<Rightarrow> rat \<Rightarrow> Direction \<Rightarrow> ViewTransform \<Rightarrow> ViewTransform" where
  "handleZoomChange rnd mounted clientWidth clientHeight direction vt =
     (if \<not> mounted then vt
      else if direction = ZoomReset then \<lparr>scale = 1, offset = \<lparr>px = 0, py = 0\<rparr>\<rparr>
      else
        (let zoomFactor = rnd (12 / 10);
             newScale = (if direction = ZoomIn then rnd (scale vt * zoomFactor)
                         else rnd (scale vt / zoomFactor));
             clampedScale = max (rnd (1 / 10)) (min newScale 10);
             center = \<lparr>px = rnd (clientWidth / 2), py = rnd (clientHeight / 2)\<rparr>;
             newOffsetX = rnd (px center
                               - rnd (rnd (px center - px (offset vt)) * rnd (clampedScale / scale vt)));
             newOffsetY = rnd (py center
                               - rnd (rnd (py center - py (offset vt)) * rnd (clampedScale / scale vt)))
         in \<lparr>scale = clampedScale, offset = \<lparr>px = newOffsetX, py = newOffsetY\<rparr>\<rparr>))"

text \<open>A zoom operation of the user, and a sequence of them applied from left to right.\<close>

datatype ZoomOp =
    Wheel WheelEvent
  | Button bool rat rat Direction

fun zoomStep :: "(rat \<Rightarrow> rat) \<Rightarrow> ViewTransform \<Rightarrow> ZoomOp \<Rightarrow> ViewTransform" where
  "zoomStep rnd vt (Wheel e) = handleWheel rnd e vt"
| "zoomStep rnd vt (Button mounted clientWidth clientHeight direction) =
     handleZoomChange rnd mounted clientWidth clientHeight direction vt"

definition zoomAll :: "(rat \<Rightarrow> rat) \<Rightarrow> ZoomOp list \<Rightarrow> ViewTransform \<Rightarrow> ViewTransform" where
  "zoomAll rnd ops vt = foldl (zoomStep rnd) vt ops"

subsection \<open>DXF export\<close>

text \<open>
  How a template literal prints an integer: its decimal digits, with a minus sign when
  it is negative.
\<close>

fun showNat :: "nat \<Rightarrow> string" where
  "showNat n =
     (if n < 10 then [''0123456789'' ! n]
      else showNat (n div 10) @ [''0123456789'' ! (n mod 10)])"

declare showNat.simps [simp del]

definition showInt :: "int \<Rightarrow> string" where
  "showInt i = (if i < 0 then ''-'' @ showNat (nat (- i)) else showNat (nat i))"

text \<open>
  \<open>generateDxf\<close>. A read beyond the end of \<open>data\<close> gives \<open>undefined\<close> in JavaScript,
  and both comparisons with \<open>undefined\<close> are false.
\<close>

definition threshold :: nat where
  "threshold = 128"

definition byteAt :: "nat list \<Rightarrow> nat \<Rightarrow> nat option" where
  "byteAt d i = (if i < length d then Some (d ! i) else None)"

definition isBlack :: "ImageData \<Rightarrow> nat \<Rightarrow> nat \<Rightarrow> bool" where
  "isBlack imgData x y =
     (let index = (y * width imgData + x) * 4
      in (case byteAt (data imgData) index of None \<Rightarrow> False | Some r \<Rightarrow> r < threshold)
         \<and> (case byteAt (data imgData) (index + 3) of None \<Rightarrow> False | Some a \<Rightarrow> a > threshold))"

definition lineEntity :: "int \<Rightarrow> int \<Rightarrow> int \<Rightarrow> string" where
  "lineEntity startX endX dxfY =
     ''0\<newline>LINE\<newline>8\<newline>0\<newline>10\<newline>'' @ showInt startX
     @ ''\<newline>20\<newline>'' @ showInt dxfY
     @ ''\<newline>11\<newline>'' @ showInt endX
     @ ''\<newline>21\<newline>'' @ showInt dxfY @ ''\<newline>''"

text \<open>
  The inner loop over the columns \<open>x\<close> of row \<open>y\<close>, with the loop variables
  \<open>inSegment\<close>, \<open>startX\<close> and the text so far.
\<close>

function scanRow ::
  "ImageData \<Rightarrow> nat \<Rightarrow> nat \<Rightarrow> bool \<Rightarrow> nat \<Rightarrow> string \<Rightarrow> bool \<times> nat \<times> string" where
  "scanRow imgData y x inSegment startX dxfContent =
     (if x < width imgData then
        (if isBlack imgData x y \<and> \<not> inSegment then
           scanRow imgData y (x + 1) True x dxfContent
         else if \<not> isBlack imgData x y \<and> inSegment then
           (let endX = int x - 1
            in scanRow imgData y (x + 1) False startX
                 (if int startX \<le> endX
                  then dxfContent @ lineEntity (int startX) endX (int (height imgData) - 1 - int y)
                  else dxfContent))
         else scanRow imgData y (x + 1) inSegment startX dxfContent)
      else (inSegment, startX, dxfContent))"
  by pat_completeness auto
termination
  by (relation "measure (\<lambda>(imgData, y, x, inSegment, startX, dxfContent). width imgData - x)") auto

declare scanRow.simps [simp del]

text \<open>The body of the outer loop: the scan of row \<open>y\<close> and the run still open at its end.\<close>

definition dxfRow :: "ImageData \<Rightarrow> nat \<Rightarrow> string \<Rightarrow> string" where
  "dxfRow imgData y dxfContent =
     (case scanRow imgData y 0 False 0 dxfContent of
        (inSegment, startX, content) \<Rightarrow>
          (if inSegment then
             (let endX = int (width imgData) - 1
              in if int startX \<le> endX
                 then content @ lineEntity (int startX) endX (int (height imgData) - 1 - int y)
                 else content)
           else content))"

function dxfRows :: "ImageData \<Rightarrow> nat \<Rightarrow> string \<Rightarrow> string" where
  "dxfRows imgData y dxfContent =
     (if y < height imgData then dxfRows imgData (y + 1) (dxfRow imgData y dxfContent)
      else dxfContent)"
  by pat_completeness auto
termination
  by (relation "measure (\<lambda>(imgData, y, dxfContent). height imgData - y)") auto

declare dxfRows.simps [simp del]

definition generateDxf :: "ImageData \<Rightarrow> string" where
  "generateDxf imgData =
     dxfRows imgData 0 ''0\<newline>SECTION\<newline>2\<newline>ENTITIES\<newline>''
     @ ''0\<newline>ENDSEC\<newline>0\<newline>EOF\<newline>''"

text \<open>
  The same scan of a row from column \<open>x\<close> on, over any ink test \<open>b\<close> and width \<open>w\<close>,
  giving the runs it emits as pairs (first column, last column) in place of their text,
  the run open at the end of the row included.
\<close>

function scanRowRuns :: "(nat \<Rightarrow> bool) \<Rightarrow> nat \<Rightarrow> nat \<Rightarrow> bool \<Rightarrow> nat \<Rightarrow> (int \<times> int) list" where
  "scanRowRuns b w x inSegment startX =
     (if x < w then
        (if b x \<and> \<not> inSegment then scanRowRuns b w (x + 1) True x
         else if \<not> b x \<and> inSegment then
           (if int startX \<le> int x - 1 then [(int startX, int x - 1)] else [])
           @ scanRowRuns b w (x + 1) False startX
         else scanRowRuns b w (x + 1) inSegment startX)
      else (if inSegment \<and> int startX \<le> int w - 1 then [(int startX, int w - 1)] else []))"
  by pat_completeness auto
termination
  by (relation "measure (\<lambda>(b, w, x, inSegment, startX). w - x)") auto

declare scanRowRuns.simps [simp del]

definition rowSegments :: "ImageData \<Rightarrow> nat \<Rightarrow> (int \<times> int) list" where
  "rowSegments imgData y = scanRowRuns (\<lambda>x. isBlack imgData x y) (width imgData) 0 False 0"

text \<open>
  A maximal run of ink in a row of width \<open>w\<close>: columns \<open>s\<close> to \<open>e\<close> are all ink, and
  the run can be extended neither to the left nor to the right.
\<close>

definition isRun :: "(nat \<Rightarrow> bool) \<Rightarrow> nat \<Rightarrow> nat \<Rightarrow> nat \<Rightarrow> bool" where
  "isRun b w s e =
     (s \<le> e \<and> e < w \<and> (\<forall>i \<in> {s..e}. b i)
      \<and> (s = 0 \<or> \<not> b (s - 1)) \<and> (e + 1 = w \<or> \<not> b (e + 1)))"

text \<open>
  What the scan of a row emits from column \<open>x\<close> on, when it stands there with the loop
  variables \<open>inS\<close> and \<open>sX\<close>: the open run once it ends, and every later maximal run.
\<close>

definition emitted :: "(nat \<Rightarrow> bool) \<Rightarrow> nat \<Rightarrow> nat \<Rightarrow> bool \<Rightarrow> nat \<Rightarrow> nat \<Rightarrow> nat \<Rightarrow> bool" where
  "emitted b w x inS sX s e =
     (e < w \<and> (e + 1 = w \<or> \<not> b (e + 1))
      \<and> ((inS \<and> s = sX \<and> x \<le> e + 1 \<and> (\<forall>i \<in> {x..e}. b i))
         \<or> (x \<le> s \<and> s \<le> e \<and> (\<forall>i \<in> {s..e}. b i)
            \<and> (if s = x then \<not> inS else \<not> b (s - 1)))))"

text \<open>The end points (x1, y1, x2, y2) of the lines of the document, rows from the top.\<close>

definition dxfLines :: "ImageData \<Rightarrow> (int \<times> int \<times> int \<times> int) list" where
  "dxfLines imgData =
     concat (map (\<lambda>y. map (\<lambda>(s, e). (s, int (height imgData) - 1 - int y,
                                       e, int (height imgData) - 1 - int y))
                          (rowSegments imgData y))
                 [0..<height imgData])"

subsection \<open>Download\<close>

text \<open>The code units of a string literal of the source (its characters are ASCII).\<close>

definition lit :: "string \<Rightarrow> nat list" where
  "lit s = map of_char s"

text \<open>
  \<open>s.replace(a, b)\<close> for one-character strings \<open>a\<close> and \<open>b\<close>: a string pattern
  replaces its first occurrence only.
\<close>

fun replaceFirst :: "'a \<Rightarrow> 'a \<Rightarrow> 'a list \<Rightarrow> 'a list" where
  "replaceFirst a b [] = []"
| "replaceFirst a b (c # cs) = (if c = a then b # cs else c # replaceFirst a b cs)"

text \<open>
  \<open>getFileName\<close>. \<open>toLowerCase\<close> is the built-in \<open>String.prototype.toLowerCase\<close>,
  which the file name takes as it is; it is a parameter here.
\<close>

definition getFileName :: "(nat list \<Rightarrow> nat list) \<Rightarrow> DesignOptions \<Rightarrow> nat list \<Rightarrow> nat list" where
  "getFileName toLowerCase options ext =
     lit ''cnc-design-'' @ toLowerCase (material options) @ lit ''-''
     @ replaceFirst (of_char CHR '' '') (of_char CHR ''-'') (toLowerCase (designType options))
     @ lit ''.'' @ ext"

text \<open>
  The name as the specification words it: lower case, every space a hyphen, in the
  material and in the design type.
\<close>

definition hyphenate :: "nat list \<Rightarrow> nat list" where
  "hyphenate s = map (\<lambda>c. if c = of_char CHR '' '' then of_char CHR ''-'' else c) s"

definition specFileName :: "(nat list \<Rightarrow> nat list) \<Rightarrow> DesignOptions \<Rightarrow> nat list \<Rightarrow> nat list" where
  "specFileName toLowerCase options ext =
     lit ''cnc-design-'' @ hyphenate (toLowerCase (material options)) @ lit ''-''
     @ hyphenate (toLowerCase (designType options)) @ lit ''.'' @ ext"

datatype Format = Png | Jpeg | Svg | Dxf

fun formatName :: "Format \<Rightarrow> string" where
  "formatName Png = ''png''"
| "formatName Jpeg = ''jpeg''"
| "formatName Svg = ''svg''"
| "formatName Dxf = ''dxf''"

text \<open>
  What the link points to: a data URL of the temporary canvas with its MIME type and
  quality argument, the SVG wrapper (width, height, the canvas embedded as PNG), or the
  DXF text.
\<close>

datatype Payload =
    DataUrl string "rat option" ImageData
  | SvgImage nat nat ImageData
  | DxfText string

text \<open>
  \<open>handleDownload\<close> gives the state after the click and the file that is downloaded, if
  any. \<open>toLowerCase\<close> is the built-in that \<open>getFileName\<close> calls; \<open>tempCtx\<close> says
  whether the temporary canvas gave a 2D context; \<open>putImageData\<close> is the browser's copy
  of a history entry onto the pixels of the temporary canvas, which has the size of the
  editor's canvas. The handler returns at once, before it touches the menu, without a
  canvas element or without that context.
\<close>

definition handleDownload ::
  "(nat list \<Rightarrow> nat list) \<Rightarrow> bool \<Rightarrow> (ImageData \<Rightarrow> ImageData \<Rightarrow> ImageData) \<Rightarrow> DesignOptions
     \<Rightarrow> Format \<Rightarrow> EditorState \<Rightarrow> EditorState \<times> (nat list \<times> Payload) option" where
  "handleDownload toLowerCase tempCtx putImageData options format s =
     (case canvas s of
        None \<Rightarrow> (s, None)
      | Some cv \<Rightarrow>
          if \<not> tempCtx then (s, None)
          else
            (let tempCanvas =
                   (if length (history s) > 0 \<and> 0 \<le> historyIndex s
                       \<and> historyIndex s < int (length (history s))
                    then putImageData (history s ! nat (historyIndex s))
                           (blank (width cv) (height cv))
                    else blank (width cv) (height cv));
                 link =
                   (if format = Svg then
                      (getFileName toLowerCase options (lit ''svg''),
                       SvgImage (width cv) (height cv) tempCanvas)
                    else if format = Dxf then
                      (getFileName toLowerCase options (lit ''dxf''),
                       DxfText (generateDxf tempCanvas))
                    else
                      (getFileName toLowerCase options (lit (formatName format)),
                       DataUrl (''image/'' @ formatName format)
                         (if format = Jpeg then Some (9 / 10) else None) tempCanvas))
             in (s\<lparr>isDownloadMenuOpen := False\<rparr>, Some link)))"

subsection \<open>Sample values\<close>

text \<open>Three one-pixel images (opaque black, opaque white, opaque grey) and states built from them.\<close>

definition pixelA :: ImageData where
  "pixelA = \<lparr>width = 1, height = 1, data = [0, 0, 0, 255]\<rparr>"

definition pixelB :: ImageData where
  "pixelB = \<lparr>width = 1, height = 1, data = [255, 255, 255, 255]\<rparr>"

definition pixelC :: ImageData where
  "pixelC = \<lparr>width = 1, height = 1, data = [90, 90, 90, 255]\<rparr>"

text \<open>
  An image was loaded, two strokes were drawn, one of them was undone, and a new stroke
  is on the canvas and not yet saved.
\<close>

definition undoneState :: EditorState where
  "undoneState =
     initialState\<lparr>canvas := Some pixelC, hasContext := True,
                  history := [pixelA, pixelB, pixelA], historyIndex := 1\<rparr>"

text \<open>An image was loaded and one stroke was drawn.\<close>

definition editedState :: EditorState where
  "editedState =
     initialState\<lparr>canvas := Some pixelB, hasContext := True,
                  history := [pixelA, pixelB], historyIndex := 1\<rparr>"

text \<open>Drawing a fully opaque image of the canvas's size replaces every pixel.\<close>

definition drawOpaque :: "ImageData \<Rightarrow> ImageData \<Rightarrow> ImageData" where
  "drawOpaque cv img = img"

text \<open>The 4x1 buffer [ink, ink, non-ink, ink].\<close>

definition opaqueInk :: "nat list" where
  "opaqueInk = [0, 0, 0, 255]"

definition opaquePaper :: "nat list" where
  "opaquePaper = [255, 255, 255, 255]"

definition fourByOne :: ImageData where
  "fourByOne =
     \<lparr>width = 4, height = 1, data = opaqueInk @ opaqueInk @ opaquePaper @ opaqueInk\<rparr>"

text \<open>
  On a string of ASCII characters \<open>toLowerCase\<close> turns the letters A to Z (code units
  65 to 90) into a to z and changes nothing else. \<open>asciiLower\<close> does this; it stands for
  the built-in on the sample strings below, which are ASCII.
\<close>

definition asciiLower :: "nat list \<Rightarrow> nat list" where
  "asciiLower s = map (\<lambda>c. if 65 \<le> c \<and> c \<le> 90 then c + 32 else c) s"

text \<open>Metadata, a state with the download menu open, and a copy that replaces every pixel.\<close>

definition woodFlat :: DesignOptions where
  "woodFlat =
     \<lparr>designType = lit ''2D Flat'', material = lit ''Wood'', width = 800, height = 600,
      depth = 20, outputFormat = lit ''JD'', prompt = [], outlineThickness = 5\<rparr>"

definition softWoodFlat :: DesignOptions where
  "softWoodFlat = woodFlat\<lparr>material := lit ''Soft Wood''\<rparr>"

definition menuOpenState :: EditorState where
  "menuOpenState = editedState\<lparr>isDownloadMenuOpen := True\<rparr>"

definition putWhole :: "ImageData \<Rightarrow> ImageData \<Rightarrow> ImageData" where
  "putWhole entry cv = entry"

section \<open>Properties\<close>

subsection \<open>History stack\<close>

lemma handleUndo_history: "history (handleUndo s) = history s"
  by (simp add: handleUndo_def)

lemma undos_history: "history ((handleUndo ^^ K) s) = history s"
  by (induction K) (simp_all add: handleUndo_history)

lemma handleUndo_index:
  "historyIndex (handleUndo t) =
     (if 0 < historyIndex t then historyIndex t - 1 else historyIndex t)"
  by (simp add: handleUndo_def)

lemma undos_index:
  "0 \<le> historyIndex s \<Longrightarrow> historyIndex ((handleUndo ^^ K) s) = max 0 (historyIndex s - int K)"
proof (induction K)
  case 0
  then show ?case by simp
next
  case (Suc K)
  then have IH: "historyIndex ((handleUndo ^^ K) s) = max 0 (historyIndex s - int K)"
    by simp
  have "historyIndex ((handleUndo ^^ Suc K) s) = historyIndex (handleUndo ((handleUndo ^^ K) s))"
    by simp
  also have "\<dots> = max 0 (historyIndex s - int (Suc K))"
    unfolding handleUndo_index IH by (simp add: max_def)
  finally show ?case .
qed

lemma undos_index_bounds:
  assumes "0 \<le> historyIndex t"
  shows "0 \<le> historyIndex ((handleUndo ^^ K) t) \<and> historyIndex ((handleUndo ^^ K) t) \<le> historyIndex t"
  using undos_index [OF assms, of K] assms by (auto simp: max_def)

text \<open>
  C5. From an index \<open>0\<close> or above, one undo lowers the index by one when it is above
  \<open>0\<close> and changes nothing at \<open>0\<close>; \<open>K\<close> undos leave it at \<open>max 0 (index - K)\<close>
  and never touch the entries. \<open>handleResetEdits\<close> sets the index to \<open>0\<close> when the
  history has an entry and changes nothing when it has none.
\<close>

theorem undo_is_linear_and_reset_returns_to_origin:
  "(0 \<le> historyIndex s \<longrightarrow>
      historyIndex (handleUndo s) = (if 0 < historyIndex s then historyIndex s - 1 else 0)
      \<and> (historyIndex s = 0 \<longrightarrow> handleUndo s = s)
      \<and> historyIndex ((handleUndo ^^ K) s) = max 0 (historyIndex s - int K)
      \<and> history ((handleUndo ^^ K) s) = history s)
   \<and> (history s \<noteq> [] \<longrightarrow>
        historyIndex (handleResetEdits s) = 0 \<and> history (handleResetEdits s) = history s)
   \<and> (history s = [] \<longrightarrow> handleResetEdits s = s)"
proof -
  have undo: "historyIndex (handleUndo s) = (if 0 < historyIndex s then historyIndex s - 1 else 0)"
    if "0 \<le> historyIndex s"
    using that by (simp add: handleUndo_index)
  have noop: "handleUndo s = s" if "historyIndex s = 0"
    using that by (simp add: handleUndo_def)
  have reset: "historyIndex (handleResetEdits s) = 0 \<and> history (handleResetEdits s) = history s"
    if "history s \<noteq> []"
    using that by (simp add: handleResetEdits_def)
  have reset_empty: "handleResetEdits s = s" if "history s = []"
    using that by (simp add: handleResetEdits_def)
  show ?thesis
    using undo noop reset reset_empty undos_index [of s K] undos_history [of K s] by blast
qed

theorem undo_is_linear_and_reset_returns_to_origin_witness:
  "0 \<le> historyIndex undoneState
   \<and> historyIndex (handleUndo undoneState) = 0
   \<and> historyIndex ((handleUndo ^^ 5) undoneState) = 0
   \<and> history ((handleUndo ^^ 5) undoneState) = [pixelA, pixelB, pixelA]
   \<and> historyIndex (handleResetEdits undoneState) = 0
   \<and> handleResetEdits initialState = initialState"
  using undo_is_linear_and_reset_returns_to_origin [of undoneState 5]
    undo_is_linear_and_reset_returns_to_origin [of initialState 0]
  by (simp add: undoneState_def initialState_def)

lemma slice0_upto:
  "0 \<le> i \<Longrightarrow> i < int (length xs) \<Longrightarrow> slice0 xs (i + 1) = take (nat i + 1) xs"
  by (simp add: slice0_def Let_def min_def nat_add_distrib)

lemma saveState_result:
  assumes "hasContext s" and "canvas s = Some buf"
    and "0 \<le> historyIndex s" and "historyIndex s < int (length (history s))"
  shows "history (saveState s) = take (nat (historyIndex s) + 1) (history s) @ [buf]"
    and "historyIndex (saveState s) = historyIndex s + 1"
proof -
  have len: "length (take (nat (historyIndex s) + 1) (history s)) = nat (historyIndex s) + 1"
    using assms(3,4) by simp
  show "history (saveState s) = take (nat (historyIndex s) + 1) (history s) @ [buf]"
    using assms by (simp add: saveState_def Let_def slice0_upto)
  show "historyIndex (saveState s) = historyIndex s + 1"
    using assms len by (simp add: saveState_def Let_def slice0_upto)
qed

text \<open>
  C4. With a context and a canvas, and the index on an entry (as it is after any number
  of undos), \<open>saveState\<close> keeps exactly the entries up to the index, appends the canvas
  read-back and points the index at it: the new history has \<open>index + 2\<close> entries, the
  entries that stood above the index are gone. Undos after it leave the history as it is
  and keep the index between \<open>0\<close> and the new last position, so what they show is a kept
  entry or the new one.
\<close>

theorem saveState_discards_entries_above_index:
  assumes "hasContext s" and "canvas s = Some buf"
    and "0 \<le> historyIndex s" and "historyIndex s < int (length (history s))"
  shows "history (saveState s) = take (nat (historyIndex s) + 1) (history s) @ [buf]
     \<and> length (history (saveState s)) = nat (historyIndex s) + 2
     \<and> historyIndex (saveState s) = int (length (history (saveState s))) - 1
     \<and> (\<forall>i. i \<le> nat (historyIndex s) \<longrightarrow> history (saveState s) ! i = history s ! i)
     \<and> history (saveState s) ! (nat (historyIndex s) + 1) = buf
     \<and> (\<forall>K. history ((handleUndo ^^ K) (saveState s)) = history (saveState s)
            \<and> 0 \<le> historyIndex ((handleUndo ^^ K) (saveState s))
            \<and> historyIndex ((handleUndo ^^ K) (saveState s)) \<le> historyIndex s + 1)"
proof -
  let ?kept = "take (nat (historyIndex s) + 1) (history s)"
  have h: "history (saveState s) = ?kept @ [buf]"
    and ix: "historyIndex (saveState s) = historyIndex s + 1"
    using saveState_result [OF assms] by simp_all
  have len: "length ?kept = nat (historyIndex s) + 1"
    using assms(3,4) by simp
  have kept: "history (saveState s) ! i = history s ! i" if "i \<le> nat (historyIndex s)" for i
    using that len by (simp add: h nth_append)
  have new: "history (saveState s) ! (nat (historyIndex s) + 1) = buf"
    using len by (simp add: h nth_append)
  have nonneg: "0 \<le> historyIndex (saveState s)"
    using ix assms(3) by simp
  have undo: "history ((handleUndo ^^ K) (saveState s)) = history (saveState s)
      \<and> 0 \<le> historyIndex ((handleUndo ^^ K) (saveState s))
      \<and> historyIndex ((handleUndo ^^ K) (saveState s)) \<le> historyIndex s + 1" for K
    using undos_index_bounds [OF nonneg, of K] undos_history [of K "saveState s"] ix by simp
  have l2: "length (history (saveState s)) = nat (historyIndex s) + 2"
    using len by (simp add: h)
  have last: "historyIndex (saveState s) = int (length (history (saveState s))) - 1"
    using l2 ix assms(3) by simp
  show ?thesis
    using h l2 last kept new undo by blast
qed

theorem saveState_discards_entries_above_index_witness:
  "hasContext undoneState \<and> canvas undoneState = Some pixelC
   \<and> 0 \<le> historyIndex undoneState
   \<and> historyIndex undoneState < int (length (history undoneState))
   \<and> history undoneState = [pixelA, pixelB, pixelA]
   \<and> history (saveState undoneState) = [pixelA, pixelB, pixelC]
   \<and> historyIndex (saveState undoneState) = 2"
proof -
  have a: "hasContext undoneState" and b: "canvas undoneState = Some pixelC"
    and c: "0 \<le> historyIndex undoneState"
    and d: "historyIndex undoneState < int (length (history undoneState))"
    by (simp_all add: undoneState_def initialState_def)
  show ?thesis
    using saveState_discards_entries_above_index [OF a b c d] a b c d
    by (simp add: undoneState_def initialState_def)
qed

subsection \<open>DXF export\<close>

lemma scanRow_runs:
  "(case scanRow img y x inS sX c of
      (inSegment, startX, content) \<Rightarrow>
        (if inSegment then
           (let endX = int (width img) - 1
            in if int startX \<le> endX
               then content @ lineEntity (int startX) endX (int (height img) - 1 - int y)
               else content)
         else content)) =
     c @ concat (map (\<lambda>(s, e). lineEntity s e (int (height img) - 1 - int y))
                  (scanRowRuns (\<lambda>x. isBlack img x y) (width img) x inS sX))"
proof (induction img y x inS sX c rule: scanRow.induct)
  case (1 imgData y x inSegment startX dxfContent)
  show ?case
    apply (subst scanRow.simps)
    apply (subst scanRowRuns.simps)
    using 1
    apply (auto simp: Let_def)
    done
qed

lemma dxfRow_runs:
  "dxfRow img y c =
     c @ concat (map (\<lambda>(s, e). lineEntity s e (int (height img) - 1 - int y)) (rowSegments img y))"
  using scanRow_runs [of img y 0 False 0 c]
  by (simp add: dxfRow_def rowSegments_def)

lemma dxfRows_runs:
  "dxfRows img y c =
     c @ concat (map (\<lambda>y. concat (map (\<lambda>(s, e). lineEntity s e (int (height img) - 1 - int y))
                                     (rowSegments img y)))
                     [y..<height img])"
proof (induction img y c rule: dxfRows.induct)
  case (1 imgData y dxfContent)
  show ?case
  proof (cases "y < height imgData")
    case True
    then show ?thesis
      using 1 by (subst dxfRows.simps) (simp add: dxfRow_runs upt_conv_Cons)
  next
    case False
    then show ?thesis by (subst dxfRows.simps) simp
  qed
qed

lemma all_from: "b x \<Longrightarrow> (\<forall>i \<in> {x..e}. b i) = (\<forall>i \<in> {x + 1..(e::nat)}. b i)"
  by (metis Suc_eq_plus1 Suc_leD Suc_leI atLeastAtMost_iff le_neq_implies_less)

lemma emitted_end: "emitted b w w inS sX s e = (inS \<and> s = sX \<and> e + 1 = w)"
  by (auto simp: emitted_def)

lemma emitted_start:
  assumes "x < w" and "b x"
  shows "emitted b w x False sX s e = emitted b w (x + 1) True x s e"
proof (cases "s = x")
  case True
  then show ?thesis
    using assms all_from [of b x e] by (auto simp: emitted_def)
next
  case False
  then show ?thesis
    using assms by (cases "s = x + 1") (auto simp: emitted_def)
qed

lemma emitted_close:
  assumes "x < w" and "\<not> b x" and "sX < x"
  shows "emitted b w x True sX s e = ((s = sX \<and> e + 1 = x) \<or> emitted b w (x + 1) False sX s e)"
proof (cases "e + 1 = x")
  case True
  then show ?thesis
    using assms by (auto simp: emitted_def)
next
  case False
  have no: "\<not> (x \<le> e + 1 \<and> (\<forall>i \<in> {x..e}. b i))"
    using False assms(2) by (metis Suc_eq_plus1 atLeastAtMost_iff le_SucE order_refl)
  show ?thesis
    using assms False no by (cases "s = x + 1"; cases "s = x") (auto simp: emitted_def)
qed

lemma emitted_skip_ink:
  assumes "x < w" and "b x"
  shows "emitted b w x True sX s e = emitted b w (x + 1) True sX s e"
proof -
  have cont: "(x \<le> e + 1 \<and> (\<forall>i \<in> {x..e}. b i))
      = (x + 1 \<le> e + 1 \<and> (\<forall>i \<in> {x + 1..e}. b i))"
    if "e + 1 = w \<or> \<not> b (e + 1)"
  proof -
    have "x \<noteq> e + 1"
      using that assms by auto
    then have "(x \<le> e + 1) = (x + 1 \<le> e + 1)"
      by auto
    then show ?thesis
      using all_from [of b x e] assms(2) by simp
  qed
  show ?thesis
  proof (cases "e + 1 = w \<or> \<not> b (e + 1)")
    case True
    show ?thesis
      using assms cont [OF True] by (cases "s = x + 1"; cases "s = x") (auto simp: emitted_def)
  next
    case False
    then show ?thesis by (auto simp: emitted_def)
  qed
qed

lemma emitted_skip_paper:
  assumes "x < w" and "\<not> b x"
  shows "emitted b w x False sX s e = emitted b w (x + 1) False sX s e"
  using assms by (cases "s = x + 1"; cases "s = x") (auto simp: emitted_def)


lemma scanRowRuns_end:
  "\<not> x < w \<Longrightarrow> scanRowRuns b w x inS sX =
     (if inS \<and> sX < w then [(int sX, int (w - 1))] else [])"
  by (subst scanRowRuns.simps) (auto simp: of_nat_diff)

lemma scanRowRuns_start:
  "x < w \<Longrightarrow> b x \<Longrightarrow> \<not> inS \<Longrightarrow> scanRowRuns b w x inS sX = scanRowRuns b w (x + 1) True x"
  by (subst scanRowRuns.simps) simp

lemma scanRowRuns_close:
  "x < w \<Longrightarrow> \<not> b x \<Longrightarrow> inS \<Longrightarrow> sX < x \<Longrightarrow>
     scanRowRuns b w x inS sX = (int sX, int (x - 1)) # scanRowRuns b w (x + 1) False sX"
  by (subst scanRowRuns.simps) (auto simp: of_nat_diff)

lemma scanRowRuns_skip:
  "x < w \<Longrightarrow> b x = inS \<Longrightarrow> scanRowRuns b w x inS sX = scanRowRuns b w (x + 1) inS sX"
  by (subst scanRowRuns.simps) simp

lemma scanRowRuns_set:
  "x \<le> w \<Longrightarrow> (inS \<longrightarrow> sX < x) \<Longrightarrow>
     set (scanRowRuns b w x inS sX) = {(int s, int e) | s e. emitted b w x inS sX s e}"
proof (induction b w x inS sX rule: scanRowRuns.induct)
  case (1 b w x inSegment startX)
  show ?case
  proof (cases "x < w")
    case False
    then have xw: "x = w" using "1.prems" by simp
    show ?thesis
      unfolding scanRowRuns_end [OF False] using "1.prems" xw
      by (auto simp: emitted_end)
  next
    case True
    consider (start) "b x" "\<not> inSegment" | (close) "\<not> b x" "inSegment"
      | (skip) "b x = inSegment" by blast
    then show ?thesis
    proof cases
      case start
      have "set (scanRowRuns b w (x + 1) True x) = {(int s, int e) | s e. emitted b w (x + 1) True x s e}"
        using "1.IH"(1) [OF True] start True by simp
      then show ?thesis
        using start by (simp add: scanRowRuns_start [OF True] emitted_start [OF True])
    next
      case close
      have sx: "startX < x" using close "1.prems" by simp
      have nb: "\<not> (b x \<and> \<not> inSegment)" using close by simp
      have "set (scanRowRuns b w (x + 1) False startX) = {(int s, int e) | s e. emitted b w (x + 1) False startX s e}"
        using "1.IH"(2) [OF True nb] close True by simp
      moreover have "{(int s, int e) | s e. s = startX \<and> e + 1 = x} = {(int startX, int (x - 1))}"
      proof -
        have "(x - 1) + 1 = x" using sx by simp
        then show ?thesis by force
      qed
      moreover have "{(int s, int e) | s e. emitted b w x True startX s e}
          = {(int s, int e) | s e. s = startX \<and> e + 1 = x}
            \<union> {(int s, int e) | s e. emitted b w (x + 1) False startX s e}"
        using emitted_close [of x w b startX] True close(1) sx by blast
      ultimately show ?thesis
        using close sx True by (simp add: scanRowRuns_close)
    next
      case skip
      have n1: "\<not> (b x \<and> \<not> inSegment)" and n2: "\<not> (\<not> b x \<and> inSegment)"
        using skip by auto
      have "set (scanRowRuns b w (x + 1) inSegment startX) = {(int s, int e) | s e. emitted b w (x + 1) inSegment startX s e}"
        using "1.IH"(3) [OF True n1 n2] "1.prems" True by auto
      then show ?thesis
        using skip True
        by (cases inSegment) (simp_all add: scanRowRuns_skip emitted_skip_ink emitted_skip_paper)
    qed
  qed
qed

lemma scanRowRuns_sorted:
  "x \<le> w \<Longrightarrow> (inS \<longrightarrow> sX < x) \<Longrightarrow>
     sorted_wrt (\<lambda>p q. snd p < fst q) (scanRowRuns b w x inS sX)"
proof (induction b w x inS sX rule: scanRowRuns.induct)
  case (1 b w x inSegment startX)
  show ?case
  proof (cases "x < w")
    case False
    show ?thesis
      unfolding scanRowRuns_end [OF False] by simp
  next
    case True
    consider (start) "b x" "\<not> inSegment" | (close) "\<not> b x" "inSegment"
      | (skip) "b x = inSegment" by blast
    then show ?thesis
    proof cases
      case start
      then show ?thesis
        using "1.IH"(1) [OF True] True by (simp add: scanRowRuns_start [OF True])
    next
      case close
      have sx: "startX < x" using close "1.prems" by simp
      have nb: "\<not> (b x \<and> \<not> inSegment)" using close by simp
      have rest: "sorted_wrt (\<lambda>p q. snd p < fst q) (scanRowRuns b w (x + 1) False startX)"
        using "1.IH"(2) [OF True nb] close True by simp
      have later: "int (x - 1) < fst q" if "q \<in> set (scanRowRuns b w (x + 1) False startX)" for q
      proof -
        have "q \<in> {(int s, int e) | s e. emitted b w (x + 1) False startX s e}"
          using that scanRowRuns_set [of "x + 1" w False startX b] True by simp
        then show ?thesis by (auto simp: emitted_def)
      qed
      show ?thesis
        using close sx True rest later by (simp add: scanRowRuns_close)
    next
      case skip
      have n1: "\<not> (b x \<and> \<not> inSegment)" and n2: "\<not> (\<not> b x \<and> inSegment)"
        using skip by auto
      show ?thesis
        using "1.IH"(3) [OF True n1 n2] "1.prems" True skip
        by (auto simp: scanRowRuns_skip)
    qed
  qed
qed

lemma emitted_isRun: "emitted b w 0 False sX s e = isRun b w s e"
  by (auto simp: emitted_def isRun_def)

lemma rowSegments_runs:
  "set (rowSegments img y) = {(int s, int e) | s e. isRun (\<lambda>x. isBlack img x y) (width img) s e}"
  using scanRowRuns_set [of 0 "width img" False 0 "\<lambda>x. isBlack img x y"]
  by (simp add: rowSegments_def emitted_isRun)

lemma rowSegments_sorted:
  "sorted_wrt (\<lambda>p q. snd p < fst q) (rowSegments img y)"
  using scanRowRuns_sorted [of 0 "width img" False 0 "\<lambda>x. isBlack img x y"]
  by (simp add: rowSegments_def)

subsection \<open>Loading a source image\<close>

lemma loadImage_history:
  assumes "canvas s = Some cv" and "loadImage True draw img s = Inr s'"
  shows "\<exists>d. history s' = [d] \<and> historyIndex s' = 0"
  using assms by (auto simp: loadImage_def Let_def)

text \<open>
  C2. The state holds a 1x1 canvas and a history of two entries with the index on the
  second. Loading another 1x1 image leaves a history of one entry, the new image, at
  index \<open>0\<close>: the two entries are lost although the dimensions did not change.
\<close>

theorem loadImage_same_dimensions_resets_history:
  "width pixelC = width pixelB \<and> height pixelC = height pixelB
   \<and> history editedState = [pixelA, pixelB] \<and> historyIndex editedState = 1
   \<and> loadImage True drawOpaque pixelC editedState =
       Inr (editedState\<lparr>canvas := Some pixelC, history := [pixelC], historyIndex := 0\<rparr>)"
  by (simp add: loadImage_def editedState_def initialState_def drawOpaque_def
      pixelB_def pixelC_def Let_def)

theorem loadImage_same_dimensions_resets_history_witness:
  "\<exists>s'. loadImage True drawOpaque pixelC editedState = Inr s'
      \<and> history s' = [pixelC] \<and> historyIndex s' = 0
      \<and> length (history editedState) = 2"
  using loadImage_same_dimensions_resets_history by simp

subsection \<open>The DXF document\<close>

lemma generateDxf_rows:
  "generateDxf img =
     ''0\<newline>SECTION\<newline>2\<newline>ENTITIES\<newline>''
     @ concat (map (\<lambda>y. concat (map (\<lambda>(s, e). lineEntity s e (int (height img) - 1 - int y))
                                     (rowSegments img y)))
                   [0..<height img])
     @ ''0\<newline>ENDSEC\<newline>0\<newline>EOF\<newline>''"
  by (simp add: generateDxf_def dxfRows_runs)

lemma pixel_index_in_range:
  assumes "x < w" and "y < h"
  shows "(y * w + x) * 4 + 3 < 4 * w * (h::nat)"
proof -
  have "y * w + x < (y + 1) * w" using assms(1) by simp
  also have "\<dots> \<le> h * w" using assms(2) by (intro mult_le_mono1) simp
  finally have "y * w + x + 1 \<le> h * w" by simp
  then have "(y * w + x + 1) * 4 \<le> h * w * 4" by (rule mult_le_mono1)
  then show ?thesis by (simp add: algebra_simps)
qed

lemma isBlack_in_range:
  assumes "x < width img" and "y < height img"
    and "length (data img) = 4 * width img * height img"
  shows "isBlack img x y =
     (data img ! ((y * width img + x) * 4) < 128 \<and> data img ! ((y * width img + x) * 4 + 3) > 128)"
proof -
  have "(y * width img + x) * 4 + 3 < length (data img)"
    using pixel_index_in_range [OF assms(1,2)] assms(3) by simp
  then show ?thesis
    by (simp add: isBlack_def byteAt_def threshold_def Let_def)
qed

lemma rowSegments_fourByOne:
  assumes "width img = 4" and "isBlack img 0 y" and "isBlack img 1 y"
    and "\<not> isBlack img 2 y" and "isBlack img 3 y"
  shows "rowSegments img y = [(0, 1), (3, 3)]"
proof -
  let ?b = "\<lambda>x. isBlack img x y"
  have "scanRowRuns ?b 4 0 False 0 = scanRowRuns ?b 4 1 True 0"
    using assms(2) scanRowRuns_start [of 0 4 ?b False 0] by (simp add: eval_nat_numeral)
  also have "\<dots> = scanRowRuns ?b 4 2 True 0"
    using assms(3) scanRowRuns_skip [of 1 4 ?b True 0] by (simp add: eval_nat_numeral)
  also have "\<dots> = (0, 1) # scanRowRuns ?b 4 3 False 0"
    using assms(4) scanRowRuns_close [of 2 4 ?b True 0] by (simp add: eval_nat_numeral)
  also have "scanRowRuns ?b 4 3 False 0 = scanRowRuns ?b 4 4 True 3"
    using assms(5) scanRowRuns_start [of 3 4 ?b False 0] by (simp add: eval_nat_numeral)
  also have "\<dots> = [(3, 3)]"
    using scanRowRuns_end [of 4 4 ?b True 3] by (simp add: eval_nat_numeral)
  finally show ?thesis
    using assms(1) by (simp add: rowSegments_def)
qed

lemma concat_map_concat_map:
  "concat (map f (concat (map g ys))) = concat (map (\<lambda>y. concat (map f (g y))) ys)"
  by (induction ys) simp_all

lemma dxfLines_text:
  "concat (map (\<lambda>(x1, y1, x2, y2).
       ''0\<newline>LINE\<newline>8\<newline>0\<newline>10\<newline>'' @ showInt x1
       @ ''\<newline>20\<newline>'' @ showInt y1
       @ ''\<newline>11\<newline>'' @ showInt x2
       @ ''\<newline>21\<newline>'' @ showInt y2 @ ''\<newline>'') (dxfLines img))
   = concat (map (\<lambda>y. concat (map (\<lambda>(s, e). lineEntity s e (int (height img) - 1 - int y))
                                     (rowSegments img y)))
                   [0..<height img])"
  by (simp add: dxfLines_def concat_map_concat_map comp_def lineEntity_def case_prod_unfold)


text \<open>
  C1. A pixel of the buffer is ink exactly when its red byte is below 128 and its alpha
  byte above 128. The document is the header, then row by row from the top the text of
  the row's segments, each at Y = height - 1 - row, then the footer. The segments of a
  row are, from left to right and each once, exactly its maximal runs of ink, from the
  first to the last column of the run; a run that reaches the end of the row ends at
  column width - 1. A 4x1 buffer [ink, ink, non-ink, ink] gives two lines, columns 0 to 1
  and 3 to 3, both at Y = 0.
\<close>

theorem generateDxf_one_line_per_maximal_ink_run:
  "(x < width img \<and> y < height img \<and> length (data img) = 4 * width img * height img \<longrightarrow>
      isBlack img x y =
        (data img ! ((y * width img + x) * 4) < 128
         \<and> data img ! ((y * width img + x) * 4 + 3) > 128))
   \<and> generateDxf img =
       ''0\<newline>SECTION\<newline>2\<newline>ENTITIES\<newline>''
       @ concat (map (\<lambda>r. concat (map (\<lambda>(s, e). lineEntity s e (int (height img) - 1 - int r))
                                       (rowSegments img r)))
                     [0..<height img])
       @ ''0\<newline>ENDSEC\<newline>0\<newline>EOF\<newline>''
   \<and> sorted_wrt (\<lambda>p q. snd p < fst q) (rowSegments img r)
   \<and> set (rowSegments img r) =
       {(int s, int e) | s e. isRun (\<lambda>c. isBlack img c r) (width img) s e}
   \<and> (width img = 4 \<and> height img = 1 \<and> isBlack img 0 0 \<and> isBlack img 1 0
        \<and> \<not> isBlack img 2 0 \<and> isBlack img 3 0 \<longrightarrow>
        generateDxf img =
          ''0\<newline>SECTION\<newline>2\<newline>ENTITIES\<newline>''
          @ lineEntity 0 1 0 @ lineEntity 3 3 0
          @ ''0\<newline>ENDSEC\<newline>0\<newline>EOF\<newline>'')"
proof -
  have four: "generateDxf img =
      ''0\<newline>SECTION\<newline>2\<newline>ENTITIES\<newline>''
      @ lineEntity 0 1 0 @ lineEntity 3 3 0
      @ ''0\<newline>ENDSEC\<newline>0\<newline>EOF\<newline>''"
    if "width img = 4" "height img = 1" "isBlack img 0 0" "isBlack img 1 0"
      "\<not> isBlack img 2 0" "isBlack img 3 0"
  proof -
    have "rowSegments img 0 = [(0, 1), (3, 3)]"
      using that by (intro rowSegments_fourByOne) simp_all
    then show ?thesis
      using that(2) by (simp add: generateDxf_rows)
  qed
  show ?thesis
    using isBlack_in_range [of x img y] generateDxf_rows [of img] rowSegments_sorted [of img r]
      rowSegments_runs [of img r] four
    by blast
qed

theorem generateDxf_one_line_per_maximal_ink_run_witness:
  "3 < width fourByOne \<and> 0 < height fourByOne
   \<and> length (data fourByOne) = 4 * width fourByOne * height fourByOne
   \<and> isBlack fourByOne 0 0 \<and> isBlack fourByOne 1 0
   \<and> \<not> isBlack fourByOne 2 0 \<and> isBlack fourByOne 3 0
   \<and> generateDxf fourByOne =
       ''0\<newline>SECTION\<newline>2\<newline>ENTITIES\<newline>0\<newline>LINE\<newline>8\<newline>0\<newline>10\<newline>0\<newline>20\<newline>0\<newline>11\<newline>1\<newline>21\<newline>0\<newline>0\<newline>LINE\<newline>8\<newline>0\<newline>10\<newline>3\<newline>20\<newline>0\<newline>11\<newline>3\<newline>21\<newline>0\<newline>0\<newline>ENDSEC\<newline>0\<newline>EOF\<newline>''"
proof -
  have px: "isBlack fourByOne 0 0" "isBlack fourByOne 1 0"
    "\<not> isBlack fourByOne 2 0" "isBlack fourByOne 3 0"
    by (simp_all add: isBlack_def byteAt_def fourByOne_def opaqueInk_def opaquePaper_def
        threshold_def)
  have dims: "width fourByOne = 4" "height fourByOne = 1" "length (data fourByOne) = 16"
    by (simp_all add: fourByOne_def opaqueInk_def opaquePaper_def)
  have "generateDxf fourByOne =
      ''0\<newline>SECTION\<newline>2\<newline>ENTITIES\<newline>''
      @ lineEntity 0 1 0 @ lineEntity 3 3 0
      @ ''0\<newline>ENDSEC\<newline>0\<newline>EOF\<newline>''"
    using generateDxf_one_line_per_maximal_ink_run [of 3 fourByOne 0 0] px dims(1,2)
    by blast
  then have "generateDxf fourByOne =
       ''0\<newline>SECTION\<newline>2\<newline>ENTITIES\<newline>0\<newline>LINE\<newline>8\<newline>0\<newline>10\<newline>0\<newline>20\<newline>0\<newline>11\<newline>1\<newline>21\<newline>0\<newline>0\<newline>LINE\<newline>8\<newline>0\<newline>10\<newline>3\<newline>20\<newline>0\<newline>11\<newline>3\<newline>21\<newline>0\<newline>0\<newline>ENDSEC\<newline>0\<newline>EOF\<newline>''"
    by (simp add: lineEntity_def showInt_def showNat.simps)
  then show ?thesis
    using px dims by simp
qed

text \<open>
  C7. The document is the SECTION/ENTITIES header, then one LINE entity for each line of
  \<open>dxfLines\<close> (there may be none), each with layer 0 under group code 8 and its two end
  points under the group codes 10/20 and 11/21, then the ENDSEC/EOF footer, and nothing
  else.
\<close>

theorem generateDxf_document_structure:
  "generateDxf img =
     ''0\<newline>SECTION\<newline>2\<newline>ENTITIES\<newline>''
     @ concat (map (\<lambda>(x1, y1, x2, y2).
           ''0\<newline>LINE\<newline>8\<newline>0\<newline>10\<newline>'' @ showInt x1
           @ ''\<newline>20\<newline>'' @ showInt y1
           @ ''\<newline>11\<newline>'' @ showInt x2
           @ ''\<newline>21\<newline>'' @ showInt y2 @ ''\<newline>'') (dxfLines img))
     @ ''0\<newline>ENDSEC\<newline>0\<newline>EOF\<newline>''"
  unfolding dxfLines_text by (rule generateDxf_rows)

theorem generateDxf_document_structure_witness:
  "dxfLines fourByOne = [(0, 0, 1, 0), (3, 0, 3, 0)]
   \<and> dxfLines (blank 2 2) = []
   \<and> generateDxf (blank 2 2) =
       ''0\<newline>SECTION\<newline>2\<newline>ENTITIES\<newline>0\<newline>ENDSEC\<newline>0\<newline>EOF\<newline>''"
proof -
  have px: "isBlack fourByOne 0 0" "isBlack fourByOne 1 0"
    "\<not> isBlack fourByOne 2 0" "isBlack fourByOne 3 0"
    by (simp_all add: isBlack_def byteAt_def fourByOne_def opaqueInk_def opaquePaper_def
        threshold_def)
  have "width fourByOne = 4"
    by (simp add: fourByOne_def)
  then have rs: "rowSegments fourByOne 0 = [(0, 1), (3, 3)]"
    using px by (intro rowSegments_fourByOne) simp_all
  have four: "dxfLines fourByOne = [(0, 0, 1, 0), (3, 0, 3, 0)]"
    using rs by (simp add: dxfLines_def fourByOne_def)
  have nb: "\<not> isBlack (blank 2 2) c r" for c r
    by (simp add: isBlack_def byteAt_def blank_def threshold_def Let_def split: option.splits)
  have "rowSegments (blank 2 2) r = []" for r
    using nb by (simp add: rowSegments_def scanRowRuns.simps blank_def)
  then have none: "dxfLines (blank 2 2) = []"
    by (simp add: dxfLines_def)
  show ?thesis
    using generateDxf_document_structure [of "blank 2 2"] four none by simp
qed


subsection \<open>View transform\<close>

lemma floor_rat_divide_numeral [simp]:
  "\<lfloor>numeral a / (numeral b :: rat)\<rfloor> = numeral a div numeral b"
  by (metis floor_divide_of_int_eq of_int_numeral)

lemmas binary64_eval = binary64_def normalise.simps roundHalfEven_def Let_def power_int_minus

lemma binary64_tenth: "binary64 (1 / 10) = 3602879701896397 / 36028797018963968"
  by (simp add: binary64_eval)

lemma clamp_bounds:
  assumes "1 / 10 \<le> lo" and "lo \<le> (10::rat)"
  shows "1 / 10 \<le> max lo (min v 10) \<and> max lo (min v 10) \<le> 10"
  using assms by (auto simp: max_def min_def)

lemma handleWheel_scale:
  "scale (handleWheel rnd e vt) = max (rnd (1 / 10))
     (min (if deltaY e < 0 then rnd (scale vt * rnd (11 / 10)) else rnd (scale vt / rnd (11 / 10))) 10)"
  by (simp add: handleWheel_def Let_def)

lemma handleZoomChange_scale:
  "scale (handleZoomChange rnd mounted cw ch d vt) =
     (if \<not> mounted then scale vt
      else if d = ZoomReset then 1
      else max (rnd (1 / 10))
        (min (if d = ZoomIn then rnd (scale vt * rnd (12 / 10)) else rnd (scale vt / rnd (12 / 10))) 10))"
  by (simp add: handleZoomChange_def Let_def)

lemma zoomStep_in_range:
  assumes "1 / 10 \<le> rnd (1 / 10)" and "rnd (1 / 10) \<le> 10"
    and "1 / 10 \<le> scale vt \<and> scale vt \<le> 10"
  shows "1 / 10 \<le> scale (zoomStep rnd vt op) \<and> scale (zoomStep rnd vt op) \<le> 10"
proof (cases op)
  case (Wheel e)
  then show ?thesis
    using clamp_bounds [OF assms(1,2)] by (simp add: handleWheel_scale)
next
  case (Button mounted cw ch d)
  then show ?thesis
    using clamp_bounds [OF assms(1,2)] assms(3) by (simp add: handleZoomChange_scale)
qed

lemma zoomAll_in_range:
  assumes "1 / 10 \<le> rnd (1 / 10)" and "rnd (1 / 10) \<le> 10"
  shows "1 / 10 \<le> scale vt \<and> scale vt \<le> 10 \<Longrightarrow>
    1 / 10 \<le> scale (zoomAll rnd ops vt) \<and> scale (zoomAll rnd ops vt) \<le> 10"
  unfolding zoomAll_def
proof (induction ops arbitrary: vt)
  case Nil
  then show ?case by simp
next
  case (Cons op ops)
  have "1 / 10 \<le> scale (zoomStep rnd vt op) \<and> scale (zoomStep rnd vt op) \<le> 10"
    using zoomStep_in_range [of rnd vt op] assms Cons.prems by blast
  then show ?case
    using Cons.IH by simp
qed

text \<open>
  C6. From a view transform whose scale is between 0.1 and 10 (the initial scale 1 is),
  any sequence of wheel zooms and button zooms (in, out, reset; with or without a mounted
  canvas), whatever the event coordinates and the size of the parent element, ends with a
  scale between 0.1 and 10; the sequence is arbitrary, so this holds after every step.
  It holds in exact arithmetic and in double arithmetic.
\<close>

theorem scale_stays_in_range:
  "1 / 10 \<le> scale vt \<and> scale vt \<le> 10 \<longrightarrow>
     (1 / 10 \<le> scale (zoomAll exact ops vt) \<and> scale (zoomAll exact ops vt) \<le> 10)
     \<and> (1 / 10 \<le> scale (zoomAll binary64 ops vt) \<and> scale (zoomAll binary64 ops vt) \<le> 10)"
proof -
  have e: "1 / 10 \<le> exact (1 / 10)" "exact (1 / 10) \<le> 10"
    by (simp_all add: exact_def)
  have b: "1 / 10 \<le> binary64 (1 / 10)" "binary64 (1 / 10) \<le> 10"
    by (simp_all add: binary64_tenth)
  show ?thesis
    using zoomAll_in_range [of exact vt ops] zoomAll_in_range [of binary64 vt ops] e b by blast
qed

lemma exact_zoom_offset:
  assumes "s \<noteq> 0" and "c \<noteq> (0::rat)"
  shows "(m - (m - (m - off) * (c / s))) / c = (m - off) / s"
  using assms by (simp add: field_simps)

lemma handleWheel_exact_focal:
  assumes "1 / 10 \<le> scale vt" and "scale vt \<le> 10"
  shows "getTransformedPoint exact (handleWheel exact e vt) (offsetX e) (offsetY e)
       = getTransformedPoint exact vt (offsetX e) (offsetY e)"
proof -
  let ?c = "scale (handleWheel exact e vt)"
  have "1 / 10 \<le> ?c"
    using clamp_bounds [of "1 / 10"] by (simp add: handleWheel_scale exact_def)
  then have c: "?c \<noteq> 0" by auto
  have s: "scale vt \<noteq> 0" using assms(1) by auto
  have ox: "px (offset (handleWheel exact e vt))
      = offsetX e - (offsetX e - px (offset vt)) * (?c / scale vt)"
    and oy: "py (offset (handleWheel exact e vt))
      = offsetY e - (offsetY e - py (offset vt)) * (?c / scale vt)"
    by (simp_all add: handleWheel_def Let_def exact_def)
  show ?thesis
    unfolding getTransformedPoint_def ox oy
    using exact_zoom_offset [OF s c] by (simp add: exact_def)
qed


theorem scale_stays_in_range_witness:
  "1 / 10 \<le> scale identityTransform \<and> scale identityTransform \<le> 10
   \<and> 1 / 10 \<le> scale (zoomAll binary64
        [Wheel \<lparr>offsetX = 15, offsetY = 0, deltaY = - 1\<rparr>, Button True 800 600 ZoomOut] identityTransform)
   \<and> scale (zoomAll exact (replicate 40 (Button True 800 600 ZoomIn)) identityTransform) \<le> 10"
proof -
  have r: "1 / 10 \<le> scale identityTransform \<and> scale identityTransform \<le> 10"
    by (simp add: identityTransform_def)
  show ?thesis
    using r scale_stays_in_range [of identityTransform
        "[Wheel \<lparr>offsetX = 15, offsetY = 0, deltaY = - 1\<rparr>, Button True 800 600 ZoomOut]"]
      scale_stays_in_range [of identityTransform "replicate 40 (Button True 800 600 ZoomIn)"]
    by blast
qed

lemma handleWheel_binary64_first_zoom:
  "handleWheel binary64 \<lparr>offsetX = 15, offsetY = 0, deltaY = - 1\<rparr> identityTransform
     = \<lparr>scale = 2476979795053773 / 2251799813685248, offset = \<lparr>px = - 3 / 2, py = 0\<rparr>\<rparr>"
  unfolding handleWheel_def identityTransform_def Let_def
  by (simp add: binary64_eval)

lemma focal_point_binary64_after:
  "getTransformedPoint binary64
      \<lparr>scale = 2476979795053773 / 2251799813685248, offset = \<lparr>px = - 3 / 2, py = 0\<rparr>\<rparr> 15 0
     = \<lparr>px = 8444249301319679 / 562949953421312, py = 0\<rparr>"
  unfolding getTransformedPoint_def
  by (simp add: binary64_eval)

lemma focal_point_binary64_before:
  "getTransformedPoint binary64 identityTransform 15 0 = \<lparr>px = 15, py = 0\<rparr>"
  unfolding getTransformedPoint_def identityTransform_def
  by (simp add: binary64_eval)

text \<open>
  The rounding of \<open>binary64\<close> changes a value by at most its \<open>2\<^sup>-\<^sup>5\<^sup>3\<close>-th part.
\<close>

lemma normalise_spec:
  "0 < m \<Longrightarrow> normalise m e = (m', e') \<Longrightarrow>
     m' * 2 powi e' = m * 2 powi e \<and> 2 ^ 52 \<le> m' \<and> m' < 2 ^ 53"
proof (induction m e rule: normalise.induct)
  case (1 m e)
  show ?case
  proof (cases "2 ^ 53 \<le> m")
    case True
    then have eq: "normalise m e = normalise (m / 2) (e + 1)"
      using "1.prems"(1) by (subst normalise.simps) simp
    have "m' * 2 powi e' = (m / 2) * 2 powi (e + 1) \<and> 2 ^ 52 \<le> m' \<and> m' < 2 ^ 53"
      using "1.IH"(1) [of ] "1.prems" True eq by simp
    then show ?thesis
      by (simp add: power_int_add)
  next
    case False
    show ?thesis
    proof (cases "m < 2 ^ 52")
      case True
      then have eq: "normalise m e = normalise (m * 2) (e - 1)"
        using "1.prems"(1) False by (subst normalise.simps) simp
      have "m' * 2 powi e' = (m * 2) * 2 powi (e - 1) \<and> 2 ^ 52 \<le> m' \<and> m' < 2 ^ 53"
        using "1.IH"(2) "1.prems" True False eq by simp
      then show ?thesis
        by (simp add: power_int_diff)
    next
      case nsmall: False
      then have "normalise m e = (m, e)"
        using "1.prems"(1) False by (subst normalise.simps) simp
      then show ?thesis
        using "1.prems"(2) False nsmall by simp
    qed
  qed
qed

lemma roundHalfEven_near: "\<bar>of_int (roundHalfEven q) - q\<bar> \<le> 1 / 2"
proof -
  have "of_int \<lfloor>q\<rfloor> \<le> q" and "q < of_int \<lfloor>q\<rfloor> + 1"
    by linarith+
  then show ?thesis
    by (auto simp: roundHalfEven_def Let_def abs_le_iff)
qed

lemma binary64_relative_error: "\<bar>binary64 v - v\<bar> \<le> \<bar>v\<bar> / 2 ^ 53"
proof (cases "v = 0")
  case True
  then show ?thesis by (simp add: binary64_def)
next
  case False
  obtain m e where n: "normalise \<bar>v\<bar> 0 = (m, e)"
    by (cases "normalise \<bar>v\<bar> 0")
  have pos: "0 < \<bar>v\<bar>" using False by simp
  have spec: "m * 2 powi e = \<bar>v\<bar>" "2 ^ 52 \<le> m"
    using normalise_spec [OF pos n] by simp_all
  have p2: "0 < (2::rat) powi e" by simp
  have b: "binary64 v = sgn v * of_int (roundHalfEven m) * 2 powi e"
    using False n by (simp add: binary64_def)
  have v: "v = sgn v * (m * 2 powi e)"
    using spec(1) by (simp add: mult_sgn_abs)
  have "binary64 v - v = sgn v * ((of_int (roundHalfEven m) - m) * 2 powi e)"
    unfolding b by (subst (2) v) (simp add: algebra_simps)
  then have "\<bar>binary64 v - v\<bar> = \<bar>of_int (roundHalfEven m) - m\<bar> * 2 powi e"
    using False by (simp add: abs_mult abs_sgn_eq)
  also have "\<dots> \<le> (1 / 2) * 2 powi e"
    using roundHalfEven_near [of m] p2 by (intro mult_right_mono) simp_all
  also have "\<dots> \<le> (m / 2 ^ 53) * 2 powi e"
    using spec(2) p2 by (intro mult_right_mono) (simp_all add: field_simps)
  also have "\<dots> = \<bar>v\<bar> / 2 ^ 53"
    using spec(1) by (simp add: field_simps)
  finally show ?thesis .
qed

text \<open>
  The error of the focal point in one coordinate. \<open>P\<close> is the device coordinate, \<open>off\<close>
  and \<open>s\<close> the offset and scale before the zoom, \<open>c\<close> the scale after it; the left side
  is the coordinate that \<open>getTransformedPoint\<close> gives after \<open>handleWheel\<close> minus the one it
  gave before, every operation rounded with a relative error of at most \<open>eps\<close>.
\<close>

lemma focal_coordinate_error:
  fixes rnd :: "rat \<Rightarrow> rat" and eps s c P off :: rat
  assumes rnd: "\<And>x. \<bar>rnd x - x\<bar> \<le> eps * \<bar>x\<bar>"
    and e0: "0 \<le> eps" and e1: "eps \<le> 1 / 100" and s: "0 < s" and c: "0 < c"
  shows "\<bar>rnd (rnd (P - rnd (P - rnd (rnd (P - off) * rnd (c / s)))) / c) - rnd (rnd (P - off) / s)\<bar>
    \<le> eps * (2 * \<bar>P\<bar> / c + 7 * \<bar>P - off\<bar> / s)"
proof -
  define d where "d = rnd (P - off)"
  define r where "r = rnd (c / s)"
  define t where "t = rnd (d * r)"
  define n where "n = rnd (P - t)"
  define u where "u = rnd (P - n)"
  define af where "af = rnd (u / c)"
  define bf where "bf = rnd (d / s)"
  define X where "X = \<bar>P - off\<bar> / s"
  define Y where "Y = \<bar>P\<bar> / c"
  define D where "D = \<bar>d\<bar> / s"
  define DR where "DR = \<bar>d * r\<bar> / c"
  define T where "T = \<bar>t\<bar> / c"
  define V where "V = \<bar>P - t\<bar> / c"
  define W where "W = \<bar>P - n\<bar> / c"
  define U where "U = \<bar>u\<bar> / c"
  have small: "eps * a \<le> a / 100" if "0 \<le> a" for a
    using mult_right_mono [OF e1 that] by simp
  have grow: "\<bar>rnd x\<bar> \<le> (101 / 100) * \<bar>x\<bar>" for x
  proof -
    have "\<bar>rnd x\<bar> \<le> \<bar>x\<bar> + \<bar>rnd x - x\<bar>" by simp
    also have "\<dots> \<le> \<bar>x\<bar> + eps * \<bar>x\<bar>" using rnd [of x] by simp
    also have "\<dots> \<le> \<bar>x\<bar> + \<bar>x\<bar> / 100" using small [of "\<bar>x\<bar>"] by simp
    finally show ?thesis by simp
  qed
  have X0: "0 \<le> X" and Y0: "0 \<le> Y"
    using s c by (simp_all add: X_def Y_def)
  have cs: "\<bar>c / s\<bar> = c / s" using s c by simp
  \<comment> \<open>magnitudes\<close>
  have D: "D \<le> (101 / 100) * X"
  proof -
    have "\<bar>d\<bar> / s \<le> ((101 / 100) * \<bar>P - off\<bar>) / s"
      using grow [of "P - off"] s unfolding d_def by (intro divide_right_mono) simp_all
    then show ?thesis by (simp add: D_def X_def)
  qed
  have r_le: "\<bar>r\<bar> \<le> (101 / 100) * (c / s)"
    using grow [of "c / s"] cs unfolding r_def by simp
  have DR: "DR \<le> (101 / 100) * D"
  proof -
    have "\<bar>d\<bar> * \<bar>r\<bar> \<le> \<bar>d\<bar> * ((101 / 100) * (c / s))"
      using r_le by (intro mult_left_mono) simp_all
    then have "\<bar>d * r\<bar> / c \<le> (\<bar>d\<bar> * ((101 / 100) * (c / s))) / c"
      using c by (intro divide_right_mono) (simp_all add: abs_mult)
    also have "\<dots> = (101 / 100) * (\<bar>d\<bar> / s)"
      using c by simp
    finally show ?thesis by (simp add: DR_def D_def)
  qed
  have T: "T \<le> (101 / 100) * DR"
  proof -
    have "\<bar>t\<bar> / c \<le> ((101 / 100) * \<bar>d * r\<bar>) / c"
      using grow [of "d * r"] c unfolding t_def by (intro divide_right_mono) simp_all
    then show ?thesis by (simp add: T_def DR_def)
  qed
  have V: "V \<le> Y + T"
  proof -
    have "\<bar>P - t\<bar> / c \<le> (\<bar>P\<bar> + \<bar>t\<bar>) / c"
      using c by (intro divide_right_mono) simp_all
    then show ?thesis by (simp add: V_def Y_def T_def add_divide_distrib)
  qed
  have n_err: "\<bar>(P - t) - n\<bar> \<le> eps * \<bar>P - t\<bar>"
    using rnd [of "P - t"] unfolding n_def by (simp add: abs_minus_commute)
  have W: "W \<le> T + V / 100"
  proof -
    have "\<bar>P - n\<bar> \<le> \<bar>t\<bar> + \<bar>(P - t) - n\<bar>" by simp
    also have "\<dots> \<le> \<bar>t\<bar> + \<bar>P - t\<bar> / 100"
      using n_err small [of "\<bar>P - t\<bar>"] by simp
    finally have "\<bar>P - n\<bar> / c \<le> (\<bar>t\<bar> + \<bar>P - t\<bar> / 100) / c"
      using c by (intro divide_right_mono) simp_all
    then show ?thesis by (simp add: W_def T_def V_def add_divide_distrib)
  qed
  have U: "U \<le> (101 / 100) * W"
  proof -
    have "\<bar>u\<bar> / c \<le> ((101 / 100) * \<bar>P - n\<bar>) / c"
      using grow [of "P - n"] c unfolding u_def by (intro divide_right_mono) simp_all
    then show ?thesis by (simp add: U_def W_def)
  qed
  \<comment> \<open>the six errors\<close>
  have E1: "\<bar>af - u / c\<bar> \<le> eps * U"
    using rnd [of "u / c"] c unfolding af_def U_def by simp
  have E2: "\<bar>u / c - (P - n) / c\<bar> \<le> eps * W"
  proof -
    have "\<bar>u - (P - n)\<bar> / c \<le> (eps * \<bar>P - n\<bar>) / c"
      using rnd [of "P - n"] c unfolding u_def by (intro divide_right_mono) simp_all
    moreover have "u / c - (P - n) / c = (u - (P - n)) / c"
      by (simp add: diff_divide_distrib)
    ultimately show ?thesis using c by (simp add: W_def)
  qed
  have E3: "\<bar>(P - n) / c - t / c\<bar> \<le> eps * V"
  proof -
    have "\<bar>(P - t) - n\<bar> / c \<le> (eps * \<bar>P - t\<bar>) / c"
      using n_err c by (intro divide_right_mono) simp_all
    moreover have "(P - n) / c - t / c = ((P - t) - n) / c"
      by (simp add: diff_divide_distrib)
    ultimately show ?thesis using c by (simp add: V_def)
  qed
  have E4: "\<bar>t / c - d * r / c\<bar> \<le> eps * DR"
  proof -
    have "\<bar>t - d * r\<bar> / c \<le> (eps * \<bar>d * r\<bar>) / c"
      using rnd [of "d * r"] c unfolding t_def by (intro divide_right_mono) simp_all
    moreover have "t / c - d * r / c = (t - d * r) / c"
      by (simp add: diff_divide_distrib)
    ultimately show ?thesis using c by (simp add: DR_def)
  qed
  have E5: "\<bar>d * r / c - d / s\<bar> \<le> eps * D"
  proof -
    have eq: "d * r / c - d / s = d * (r - c / s) / c"
      using c s by (simp add: field_simps)
    have "\<bar>r - c / s\<bar> \<le> eps * \<bar>c / s\<bar>"
      unfolding r_def by (rule rnd)
    then have "\<bar>r - c / s\<bar> \<le> eps * (c / s)"
      by (simp only: cs)
    then have "\<bar>d\<bar> * \<bar>r - c / s\<bar> \<le> \<bar>d\<bar> * (eps * (c / s))"
      by (intro mult_left_mono) simp_all
    then have "\<bar>d * (r - c / s)\<bar> / c \<le> (\<bar>d\<bar> * (eps * (c / s))) / c"
      using c by (intro divide_right_mono) (simp_all add: abs_mult)
    also have "\<dots> = eps * (\<bar>d\<bar> / s)"
      using c by simp
    finally show ?thesis
      unfolding eq using c by (simp add: D_def)
  qed
  have E6: "\<bar>d / s - bf\<bar> \<le> eps * D"
    using rnd [of "d / s"] s unfolding bf_def D_def by (simp add: abs_minus_commute)
  have "\<bar>af - bf\<bar> \<le> \<bar>af - u / c\<bar> + \<bar>u / c - (P - n) / c\<bar> + \<bar>(P - n) / c - t / c\<bar>
      + \<bar>t / c - d * r / c\<bar> + \<bar>d * r / c - d / s\<bar> + \<bar>d / s - bf\<bar>"
    by linarith
  also have "\<dots> \<le> eps * U + eps * W + eps * V + eps * DR + eps * D + eps * D"
    using E1 E2 E3 E4 E5 E6 by linarith
  also have "\<dots> = eps * (U + W + V + DR + 2 * D)"
    by (simp add: algebra_simps)
  also have "\<dots> \<le> eps * (2 * Y + 7 * X)"
  proof (rule mult_left_mono [OF _ e0])
    show "U + W + V + DR + 2 * D \<le> 2 * Y + 7 * X"
      using U W V T DR D X0 Y0 by linarith
  qed
  finally show ?thesis
    by (simp add: af_def bf_def u_def n_def t_def r_def d_def X_def Y_def)
qed

lemma handleWheel_binary64_focal_coordinate:
  assumes "0 < s" and "0 < c"
  shows "\<bar>binary64 (binary64 (P - binary64 (P - binary64 (binary64 (P - off) * binary64 (c / s)))) / c)
          - binary64 (binary64 (P - off) / s)\<bar>
       \<le> (2 * \<bar>P\<bar> / c + 7 * \<bar>P - off\<bar> / s) / 2 ^ 53"
proof -
  have r: "\<bar>binary64 x - x\<bar> \<le> (1 / 2 ^ 53) * \<bar>x\<bar>" for x
    using binary64_relative_error [of x] by simp
  have "\<bar>binary64 (binary64 (P - binary64 (P - binary64 (binary64 (P - off) * binary64 (c / s)))) / c)
          - binary64 (binary64 (P - off) / s)\<bar>
       \<le> (1 / 2 ^ 53) * (2 * \<bar>P\<bar> / c + 7 * \<bar>P - off\<bar> / s)"
    by (rule focal_coordinate_error [of binary64 "1 / 2 ^ 53" s c P off, OF r _ _ assms]) simp_all
  then show ?thesis
    by simp
qed

lemma handleWheel_binary64_focal:
  assumes "1 / 10 \<le> scale vt" and "scale vt \<le> 10"
  shows "\<bar>px (getTransformedPoint binary64 (handleWheel binary64 e vt) (offsetX e) (offsetY e))
           - px (getTransformedPoint binary64 vt (offsetX e) (offsetY e))\<bar>
         \<le> (2 * \<bar>offsetX e\<bar> / scale (handleWheel binary64 e vt)
              + 7 * \<bar>offsetX e - px (offset vt)\<bar> / scale vt) / 2 ^ 53"
    and "\<bar>py (getTransformedPoint binary64 (handleWheel binary64 e vt) (offsetX e) (offsetY e))
           - py (getTransformedPoint binary64 vt (offsetX e) (offsetY e))\<bar>
         \<le> (2 * \<bar>offsetY e\<bar> / scale (handleWheel binary64 e vt)
              + 7 * \<bar>offsetY e - py (offset vt)\<bar> / scale vt) / 2 ^ 53"
proof -
  let ?c = "scale (handleWheel binary64 e vt)"
  have "1 / 10 \<le> ?c"
    using clamp_bounds [of "binary64 (1 / 10)"] by (simp add: handleWheel_scale binary64_tenth)
  then have c: "0 < ?c" by simp
  have s: "0 < scale vt" using assms(1) by simp
  have ox: "px (offset (handleWheel binary64 e vt))
      = binary64 (offsetX e - binary64 (binary64 (offsetX e - px (offset vt)) * binary64 (?c / scale vt)))"
    and oy: "py (offset (handleWheel binary64 e vt))
      = binary64 (offsetY e - binary64 (binary64 (offsetY e - py (offset vt)) * binary64 (?c / scale vt)))"
    by (simp_all add: handleWheel_def Let_def)
  show "\<bar>px (getTransformedPoint binary64 (handleWheel binary64 e vt) (offsetX e) (offsetY e))
           - px (getTransformedPoint binary64 vt (offsetX e) (offsetY e))\<bar>
         \<le> (2 * \<bar>offsetX e\<bar> / ?c + 7 * \<bar>offsetX e - px (offset vt)\<bar> / scale vt) / 2 ^ 53"
    unfolding getTransformedPoint_def Point.simps ox
    by (rule handleWheel_binary64_focal_coordinate [OF s c])
  show "\<bar>py (getTransformedPoint binary64 (handleWheel binary64 e vt) (offsetX e) (offsetY e))
           - py (getTransformedPoint binary64 vt (offsetX e) (offsetY e))\<bar>
         \<le> (2 * \<bar>offsetY e\<bar> / ?c + 7 * \<bar>offsetY e - py (offset vt)\<bar> / scale vt) / 2 ^ 53"
    unfolding getTransformedPoint_def Point.simps oy
    by (rule handleWheel_binary64_focal_coordinate [OF s c])
qed

lemma handleWheel_binary64_far_offset:
  "handleWheel binary64 \<lparr>offsetX = 4503599627370496, offsetY = 0, deltaY = - 1\<rparr>
      \<lparr>scale = 1, offset = \<lparr>px = 4503599627370495, py = 0\<rparr>\<rparr>
     = \<lparr>scale = 2476979795053773 / 2251799813685248, offset = \<lparr>px = 4503599627370495, py = 0\<rparr>\<rparr>"
  unfolding handleWheel_def Let_def
  by (simp add: binary64_eval)

lemma focal_point_far_offset_after:
  "getTransformedPoint binary64
      \<lparr>scale = 2476979795053773 / 2251799813685248, offset = \<lparr>px = 4503599627370495, py = 0\<rparr>\<rparr>
      4503599627370496 0
     = \<lparr>px = 8188362958855447 / 9007199254740992, py = 0\<rparr>"
  unfolding getTransformedPoint_def
  by (simp add: binary64_eval)

lemma focal_point_far_offset_before:
  "getTransformedPoint binary64 \<lparr>scale = 1, offset = \<lparr>px = 4503599627370495, py = 0\<rparr>\<rparr>
      4503599627370496 0
     = \<lparr>px = 1, py = 0\<rparr>"
  unfolding getTransformedPoint_def
  by (simp add: binary64_eval)

text \<open>
  C3 as stated fails in double arithmetic, and by more than rounding in the last place.
  At scale 1 with offset (4503599627370495, 0), which is \<open>2\<^sup>5\<^sup>2 - 1\<close>, the device point
  (4503599627370496, 0) lies over the model point (1, 0). One wheel step inwards there
  gives scale 1.1 and computes the new offset as \<open>2\<^sup>5\<^sup>2 - 1.1\<close>, which in doubles is
  \<open>2\<^sup>5\<^sup>2 - 1\<close> again: the offset does not move. The model point under the same device
  point is then 1 / 1.1, about 0.909: it has moved by more than 0.09, nine per cent of
  its value. All the numbers involved are doubles.
\<close>

theorem zoom_moves_focal_point_beyond_rounding:
  "1 / 10 \<le> scale \<lparr>scale = 1, offset = \<lparr>px = 4503599627370495, py = 0\<rparr>\<rparr>
   \<and> scale \<lparr>scale = 1, offset = \<lparr>px = 4503599627370495, py = 0\<rparr>\<rparr> \<le> 10
   \<and> binary64 4503599627370495 = 4503599627370495
   \<and> binary64 4503599627370496 = 4503599627370496
   \<and> getTransformedPoint binary64 \<lparr>scale = 1, offset = \<lparr>px = 4503599627370495, py = 0\<rparr>\<rparr>
         4503599627370496 0
       = \<lparr>px = 1, py = 0\<rparr>
   \<and> handleWheel binary64 \<lparr>offsetX = 4503599627370496, offsetY = 0, deltaY = - 1\<rparr>
         \<lparr>scale = 1, offset = \<lparr>px = 4503599627370495, py = 0\<rparr>\<rparr>
       = \<lparr>scale = binary64 (binary64 1 * binary64 (11 / 10)),
          offset = \<lparr>px = 4503599627370495, py = 0\<rparr>\<rparr>
   \<and> getTransformedPoint binary64
         (handleWheel binary64 \<lparr>offsetX = 4503599627370496, offsetY = 0, deltaY = - 1\<rparr>
            \<lparr>scale = 1, offset = \<lparr>px = 4503599627370495, py = 0\<rparr>\<rparr>)
         4503599627370496 0
       = \<lparr>px = 8188362958855447 / 9007199254740992, py = 0\<rparr>
   \<and> 9 / 100 <
       \<bar>px (getTransformedPoint binary64
              (handleWheel binary64 \<lparr>offsetX = 4503599627370496, offsetY = 0, deltaY = - 1\<rparr>
                 \<lparr>scale = 1, offset = \<lparr>px = 4503599627370495, py = 0\<rparr>\<rparr>)
              4503599627370496 0)
        - px (getTransformedPoint binary64 \<lparr>scale = 1, offset = \<lparr>px = 4503599627370495, py = 0\<rparr>\<rparr>
              4503599627370496 0)\<bar>"
proof -
  have s: "binary64 (binary64 1 * binary64 (11 / 10)) = 2476979795053773 / 2251799813685248"
    by (simp add: binary64_eval)
  have d: "binary64 4503599627370495 = 4503599627370495"
    "binary64 4503599627370496 = 4503599627370496"
    by (simp_all add: binary64_eval)
  show ?thesis
    unfolding handleWheel_binary64_far_offset focal_point_far_offset_after
      focal_point_far_offset_before s d
    by simp
qed

text \<open>
  C3, amended. For every view transform with scale between 0.1 and 10 and every wheel
  event (inwards or outwards, clamped or not):
  \<^item> in exact arithmetic the model point under the event's device point is the same
    before and after \<open>handleWheel\<close>;
  \<^item> in double arithmetic (every operation rounded to nearest, no overflow and no
    subnormal result) each coordinate of that model point moves by at most
    \<open>(2 |P| / s' + 7 |P - o| / s) / 2\<^sup>5\<^sup>3\<close>, where \<open>P\<close> is the device coordinate, \<open>o\<close> and
    \<open>s\<close> are the offset and scale before the zoom and \<open>s'\<close> the scale after it.
  The bound grows with the distance of the device point from the origin, not only with
  the model coordinate: the new offset is stored rounded, and that error is divided by
  the scale.
\<close>

theorem zoom_keeps_focal_point_up_to_rounding:
  "1 / 10 \<le> scale vt \<and> scale vt \<le> 10 \<longrightarrow>
     getTransformedPoint exact (handleWheel exact e vt) (offsetX e) (offsetY e)
       = getTransformedPoint exact vt (offsetX e) (offsetY e)
     \<and> \<bar>px (getTransformedPoint binary64 (handleWheel binary64 e vt) (offsetX e) (offsetY e))
          - px (getTransformedPoint binary64 vt (offsetX e) (offsetY e))\<bar>
        \<le> (2 * \<bar>offsetX e\<bar> / scale (handleWheel binary64 e vt)
             + 7 * \<bar>offsetX e - px (offset vt)\<bar> / scale vt) / 2 ^ 53
     \<and> \<bar>py (getTransformedPoint binary64 (handleWheel binary64 e vt) (offsetX e) (offsetY e))
          - py (getTransformedPoint binary64 vt (offsetX e) (offsetY e))\<bar>
        \<le> (2 * \<bar>offsetY e\<bar> / scale (handleWheel binary64 e vt)
             + 7 * \<bar>offsetY e - py (offset vt)\<bar> / scale vt) / 2 ^ 53"
  using handleWheel_exact_focal [of vt e] handleWheel_binary64_focal [of vt e] by blast

theorem zoom_keeps_focal_point_up_to_rounding_witness:
  "1 / 10 \<le> scale identityTransform \<and> scale identityTransform \<le> 10
   \<and> handleWheel exact \<lparr>offsetX = 15, offsetY = 0, deltaY = - 1\<rparr> identityTransform
       = \<lparr>scale = 11 / 10, offset = \<lparr>px = - 3 / 2, py = 0\<rparr>\<rparr>
   \<and> getTransformedPoint exact
         (handleWheel exact \<lparr>offsetX = 15, offsetY = 0, deltaY = - 1\<rparr> identityTransform) 15 0
       = \<lparr>px = 15, py = 0\<rparr>
   \<and> getTransformedPoint binary64 identityTransform 15 0 = \<lparr>px = 15, py = 0\<rparr>
   \<and> getTransformedPoint binary64
         (handleWheel binary64 \<lparr>offsetX = 15, offsetY = 0, deltaY = - 1\<rparr> identityTransform) 15 0
       = \<lparr>px = 8444249301319679 / 562949953421312, py = 0\<rparr>
   \<and> \<bar>px (getTransformedPoint binary64
             (handleWheel binary64 \<lparr>offsetX = 15, offsetY = 0, deltaY = - 1\<rparr> identityTransform) 15 0)
        - 15\<bar>
       \<le> (2 * 15 / (2476979795053773 / 2251799813685248) + 7 * 15 / 1) / 2 ^ 53"
proof -
  let ?e = "\<lparr>offsetX = 15, offsetY = 0, deltaY = - 1\<rparr>"
  have r: "1 / 10 \<le> scale identityTransform \<and> scale identityTransform \<le> 10"
    by (simp add: identityTransform_def)
  have b: "getTransformedPoint exact identityTransform 15 0 = \<lparr>px = 15, py = 0\<rparr>"
    by (simp add: getTransformedPoint_def identityTransform_def exact_def)
  have h: "handleWheel exact ?e identityTransform
       = \<lparr>scale = 11 / 10, offset = \<lparr>px = - 3 / 2, py = 0\<rparr>\<rparr>"
    by (simp add: handleWheel_def identityTransform_def exact_def Let_def)
  have v: "scale (handleWheel binary64 ?e identityTransform) = 2476979795053773 / 2251799813685248"
    "px (offset identityTransform) = 0" "scale identityTransform = 1"
    "px (getTransformedPoint binary64 identityTransform 15 0) = 15"
    unfolding handleWheel_binary64_first_zoom focal_point_binary64_before
    by (simp_all add: identityTransform_def)
  have t: "getTransformedPoint exact (handleWheel exact ?e identityTransform) (offsetX ?e) (offsetY ?e)
       = getTransformedPoint exact identityTransform (offsetX ?e) (offsetY ?e)
     \<and> \<bar>px (getTransformedPoint binary64 (handleWheel binary64 ?e identityTransform) (offsetX ?e) (offsetY ?e))
          - px (getTransformedPoint binary64 identityTransform (offsetX ?e) (offsetY ?e))\<bar>
        \<le> (2 * \<bar>offsetX ?e\<bar> / scale (handleWheel binary64 ?e identityTransform)
             + 7 * \<bar>offsetX ?e - px (offset identityTransform)\<bar> / scale identityTransform) / 2 ^ 53"
    using zoom_keeps_focal_point_up_to_rounding [of identityTransform ?e] r by blast
  have ex: "getTransformedPoint exact (handleWheel exact ?e identityTransform) 15 0 = \<lparr>px = 15, py = 0\<rparr>"
    using t b by simp
  have bd: "\<bar>px (getTransformedPoint binary64 (handleWheel binary64 ?e identityTransform) 15 0) - 15\<bar>
       \<le> (2 * 15 / (2476979795053773 / 2251799813685248) + 7 * 15 / 1) / 2 ^ 53"
    using t by (simp add: v)
  have af: "getTransformedPoint binary64 (handleWheel binary64 ?e identityTransform) 15 0
       = \<lparr>px = 8444249301319679 / 562949953421312, py = 0\<rparr>"
    unfolding handleWheel_binary64_first_zoom focal_point_binary64_after ..
  show ?thesis
    using r h ex focal_point_binary64_before af bd by blast
qed

lemma handleWheel_binary64_at_bound:
  "handleWheel binary64 \<lparr>offsetX = 100, offsetY = 0, deltaY = - 1\<rparr>
      \<lparr>scale = 10, offset = \<lparr>px = 3602879701896397 / 36028797018963968, py = 0\<rparr>\<rparr>
    = \<lparr>scale = 10, offset = \<lparr>px = 3518437208883 / 35184372088832, py = 0\<rparr>\<rparr>"
  unfolding handleWheel_def Let_def
  by (simp add: binary64_eval)

text \<open>
  C10 as stated fails in double arithmetic. At scale 10 with offset (0.1, 0), a wheel
  step inwards at device point (100, 0) leaves the scale at 10 and recomputes the
  offset's first coordinate as 100 - (100 - 0.1) * (10 / 10), which in doubles is
  0.09999999999999432.
\<close>

theorem zoom_at_bound_moves_offset_in_doubles:
  "scale (handleWheel binary64 \<lparr>offsetX = 100, offsetY = 0, deltaY = - 1\<rparr>
            \<lparr>scale = 10, offset = \<lparr>px = binary64 (1 / 10), py = 0\<rparr>\<rparr>)
     = scale \<lparr>scale = 10, offset = \<lparr>px = binary64 (1 / 10), py = 0\<rparr>\<rparr>
   \<and> px (offset (handleWheel binary64 \<lparr>offsetX = 100, offsetY = 0, deltaY = - 1\<rparr>
            \<lparr>scale = 10, offset = \<lparr>px = binary64 (1 / 10), py = 0\<rparr>\<rparr>))
     = 3518437208883 / 35184372088832
   \<and> binary64 (1 / 10) = 3602879701896397 / 36028797018963968
   \<and> handleWheel binary64 \<lparr>offsetX = 100, offsetY = 0, deltaY = - 1\<rparr>
            \<lparr>scale = 10, offset = \<lparr>px = binary64 (1 / 10), py = 0\<rparr>\<rparr>
     \<noteq> \<lparr>scale = 10, offset = \<lparr>px = binary64 (1 / 10), py = 0\<rparr>\<rparr>"
  unfolding binary64_tenth handleWheel_binary64_at_bound
  by simp

lemma exact_same_scale_offset:
  assumes "s \<noteq> (0::rat)"
  shows "m - (m - off) * (s / s) = off"
  using assms by simp

lemma handleWheel_exact_same_scale:
  assumes "scale vt \<noteq> 0" and "scale (handleWheel exact e vt) = scale vt"
  shows "handleWheel exact e vt = vt"
proof -
  let ?c = "scale (handleWheel exact e vt)"
  have ox: "px (offset (handleWheel exact e vt))
      = offsetX e - (offsetX e - px (offset vt)) * (?c / scale vt)"
    and oy: "py (offset (handleWheel exact e vt))
      = offsetY e - (offsetY e - py (offset vt)) * (?c / scale vt)"
    by (simp_all add: handleWheel_def Let_def exact_def)
  have "px (offset (handleWheel exact e vt)) = px (offset vt)"
    and "py (offset (handleWheel exact e vt)) = py (offset vt)"
    unfolding ox oy assms(2) using exact_same_scale_offset [OF assms(1)] by simp_all
  then have "offset (handleWheel exact e vt) = offset vt"
    by simp
  then show ?thesis
    using assms(2) by simp
qed

lemma handleZoomChange_exact_same_scale:
  assumes "scale vt \<noteq> 0" and "d \<noteq> ZoomReset"
    and "scale (handleZoomChange exact mounted cw ch d vt) = scale vt"
  shows "handleZoomChange exact mounted cw ch d vt = vt"
proof (cases mounted)
  case False
  then show ?thesis by (simp add: handleZoomChange_def)
next
  case True
  let ?r = "handleZoomChange exact mounted cw ch d vt"
  have ox: "px (offset ?r) = cw / 2 - (cw / 2 - px (offset vt)) * (scale ?r / scale vt)"
    and oy: "py (offset ?r) = ch / 2 - (ch / 2 - py (offset vt)) * (scale ?r / scale vt)"
    using True assms(2) by (simp_all add: handleZoomChange_def Let_def exact_def)
  have "px (offset ?r) = px (offset vt)" and "py (offset ?r) = py (offset vt)"
    unfolding ox oy assms(3) using exact_same_scale_offset [OF assms(1)] by simp_all
  then have "offset ?r = offset vt"
    by simp
  then show ?thesis
    using assms(3) by simp
qed

lemma handleWheel_exact_same_scale_iff:
  assumes "1 / 10 \<le> scale vt" and "scale vt \<le> 10"
  shows "scale (handleWheel exact e vt) = scale vt
     \<longleftrightarrow> (deltaY e < 0 \<and> scale vt = 10) \<or> (\<not> deltaY e < 0 \<and> scale vt = 1 / 10)"
  using assms by (auto simp: handleWheel_scale exact_def max_def min_def field_simps)


lemma binary64_one: "binary64 1 = 1"
  by (simp add: binary64_eval)

lemma binary64_same_scale_coordinate:
  assumes "s \<noteq> 0" and "binary64 off = off" and "binary64 (m - off) = m - off"
  shows "binary64 (m - binary64 (binary64 (m - off) * binary64 (s / s))) = off"
  using assms by (simp add: binary64_one)

lemma handleWheel_binary64_same_scale:
  assumes "scale vt \<noteq> 0" and "scale (handleWheel binary64 e vt) = scale vt"
    and "binary64 (px (offset vt)) = px (offset vt)"
    and "binary64 (py (offset vt)) = py (offset vt)"
    and "binary64 (offsetX e - px (offset vt)) = offsetX e - px (offset vt)"
    and "binary64 (offsetY e - py (offset vt)) = offsetY e - py (offset vt)"
  shows "handleWheel binary64 e vt = vt"
proof -
  let ?c = "scale (handleWheel binary64 e vt)"
  have ox: "px (offset (handleWheel binary64 e vt))
      = binary64 (offsetX e - binary64 (binary64 (offsetX e - px (offset vt)) * binary64 (?c / scale vt)))"
    and oy: "py (offset (handleWheel binary64 e vt))
      = binary64 (offsetY e - binary64 (binary64 (offsetY e - py (offset vt)) * binary64 (?c / scale vt)))"
    by (simp_all add: handleWheel_def Let_def)
  have "px (offset (handleWheel binary64 e vt)) = px (offset vt)"
    unfolding ox assms(2)
    using binary64_same_scale_coordinate [OF assms(1,3,5)] .
  moreover have "py (offset (handleWheel binary64 e vt)) = py (offset vt)"
    unfolding oy assms(2)
    using binary64_same_scale_coordinate [OF assms(1,4,6)] .
  ultimately have "offset (handleWheel binary64 e vt) = offset vt"
    by simp
  then show ?thesis
    using assms(2) by simp
qed

lemma handleZoomChange_binary64_same_scale:
  assumes "scale vt \<noteq> 0" and "d \<noteq> ZoomReset"
    and "scale (handleZoomChange binary64 mounted cw ch d vt) = scale vt"
    and "binary64 (px (offset vt)) = px (offset vt)"
    and "binary64 (py (offset vt)) = py (offset vt)"
    and "binary64 (binary64 (cw / 2) - px (offset vt)) = binary64 (cw / 2) - px (offset vt)"
    and "binary64 (binary64 (ch / 2) - py (offset vt)) = binary64 (ch / 2) - py (offset vt)"
  shows "handleZoomChange binary64 mounted cw ch d vt = vt"
proof (cases mounted)
  case False
  then show ?thesis by (simp add: handleZoomChange_def)
next
  case True
  let ?r = "handleZoomChange binary64 mounted cw ch d vt"
  have ox: "px (offset ?r) = binary64 (binary64 (cw / 2)
        - binary64 (binary64 (binary64 (cw / 2) - px (offset vt)) * binary64 (scale ?r / scale vt)))"
    and oy: "py (offset ?r) = binary64 (binary64 (ch / 2)
        - binary64 (binary64 (binary64 (ch / 2) - py (offset vt)) * binary64 (scale ?r / scale vt)))"
    using True assms(2) by (simp_all add: handleZoomChange_def Let_def)
  have "px (offset ?r) = px (offset vt)"
    unfolding ox assms(3)
    using binary64_same_scale_coordinate [OF assms(1,4,6)] .
  moreover have "py (offset ?r) = py (offset vt)"
    unfolding oy assms(3)
    using binary64_same_scale_coordinate [OF assms(1,5,7)] .
  ultimately have "offset ?r = offset vt"
    by simp
  then show ?thesis
    using assms(3) by simp
qed

lemma handleZoomChange_exact_same_scale_iff:
  assumes "1 / 10 \<le> scale vt" and "scale vt \<le> 10" and "d \<noteq> ZoomReset"
  shows "scale (handleZoomChange exact True cw ch d vt) = scale vt
     \<longleftrightarrow> (d = ZoomIn \<and> scale vt = 10) \<or> (d = ZoomOut \<and> scale vt = 1 / 10)"
  using assms by (cases d) (auto simp: handleZoomChange_scale exact_def max_def min_def field_simps)

text \<open>
  C10, amended. A wheel zoom or a button zoom (in or out) that leaves a non-zero scale
  as it was leaves the whole view transform as it was when the arithmetic is exact. For a
  scale between 0.1 and 10 this happens exactly at the bounds: zooming in at 10 and
  zooming out at 0.1. In double arithmetic such a zoom leaves the transform as it was
  when the offset coordinates are doubles and the differences between the focal point
  and the offset are computed without rounding, as they are for whole pixel coordinates.
\<close>

theorem zoom_with_unchanged_scale_keeps_transform:
  "(scale vt \<noteq> 0 \<and> scale (handleWheel exact e vt) = scale vt \<longrightarrow> handleWheel exact e vt = vt)
   \<and> (scale vt \<noteq> 0 \<and> d \<noteq> ZoomReset
        \<and> scale (handleZoomChange exact mounted cw ch d vt) = scale vt \<longrightarrow>
        handleZoomChange exact mounted cw ch d vt = vt)
   \<and> (1 / 10 \<le> scale vt \<and> scale vt \<le> 10 \<longrightarrow>
        (scale (handleWheel exact e vt) = scale vt
         \<longleftrightarrow> (deltaY e < 0 \<and> scale vt = 10) \<or> (\<not> deltaY e < 0 \<and> scale vt = 1 / 10)))
   \<and> (1 / 10 \<le> scale vt \<and> scale vt \<le> 10 \<and> d \<noteq> ZoomReset \<longrightarrow>
        (scale (handleZoomChange exact True cw ch d vt) = scale vt
         \<longleftrightarrow> (d = ZoomIn \<and> scale vt = 10) \<or> (d = ZoomOut \<and> scale vt = 1 / 10)))
   \<and> (scale vt \<noteq> 0 \<and> scale (handleWheel binary64 e vt) = scale vt
        \<and> binary64 (px (offset vt)) = px (offset vt)
        \<and> binary64 (py (offset vt)) = py (offset vt)
        \<and> binary64 (offsetX e - px (offset vt)) = offsetX e - px (offset vt)
        \<and> binary64 (offsetY e - py (offset vt)) = offsetY e - py (offset vt) \<longrightarrow>
        handleWheel binary64 e vt = vt)
   \<and> (scale vt \<noteq> 0 \<and> d \<noteq> ZoomReset
        \<and> scale (handleZoomChange binary64 mounted cw ch d vt) = scale vt
        \<and> binary64 (px (offset vt)) = px (offset vt)
        \<and> binary64 (py (offset vt)) = py (offset vt)
        \<and> binary64 (binary64 (cw / 2) - px (offset vt)) = binary64 (cw / 2) - px (offset vt)
        \<and> binary64 (binary64 (ch / 2) - py (offset vt)) = binary64 (ch / 2) - py (offset vt) \<longrightarrow>
        handleZoomChange binary64 mounted cw ch d vt = vt)"
  using handleWheel_exact_same_scale [of vt e]
    handleZoomChange_exact_same_scale [of vt d mounted cw ch]
    handleWheel_exact_same_scale_iff [of vt e]
    handleZoomChange_exact_same_scale_iff [of vt d cw ch]
    handleWheel_binary64_same_scale [of vt e]
    handleZoomChange_binary64_same_scale [of vt d mounted cw ch]
  by blast

theorem zoom_with_unchanged_scale_keeps_transform_witness:
  "scale (handleWheel exact \<lparr>offsetX = 100, offsetY = 0, deltaY = - 1\<rparr>
            \<lparr>scale = 10, offset = \<lparr>px = 1 / 10, py = 0\<rparr>\<rparr>) = 10
   \<and> handleWheel exact \<lparr>offsetX = 100, offsetY = 0, deltaY = - 1\<rparr>
            \<lparr>scale = 10, offset = \<lparr>px = 1 / 10, py = 0\<rparr>\<rparr>
       = \<lparr>scale = 10, offset = \<lparr>px = 1 / 10, py = 0\<rparr>\<rparr>
   \<and> scale (handleZoomChange exact True 800 600 ZoomOut
            \<lparr>scale = 1 / 10, offset = \<lparr>px = 3 / 10, py = 7\<rparr>\<rparr>) = 1 / 10
   \<and> handleZoomChange exact True 800 600 ZoomOut
            \<lparr>scale = 1 / 10, offset = \<lparr>px = 3 / 10, py = 7\<rparr>\<rparr>
       = \<lparr>scale = 1 / 10, offset = \<lparr>px = 3 / 10, py = 7\<rparr>\<rparr>
   \<and> scale (handleWheel binary64 \<lparr>offsetX = 100, offsetY = 40, deltaY = - 1\<rparr>
            \<lparr>scale = 10, offset = \<lparr>px = - 135, py = 7\<rparr>\<rparr>) = 10
   \<and> binary64 (- 135) = - 135 \<and> binary64 7 = 7
   \<and> binary64 (100 - (- 135)) = 100 - (- 135) \<and> binary64 (40 - 7) = 40 - 7
   \<and> handleWheel binary64 \<lparr>offsetX = 100, offsetY = 40, deltaY = - 1\<rparr>
            \<lparr>scale = 10, offset = \<lparr>px = - 135, py = 7\<rparr>\<rparr>
       = \<lparr>scale = 10, offset = \<lparr>px = - 135, py = 7\<rparr>\<rparr>
   \<and> scale (handleZoomChange binary64 True 800 600 ZoomOut
            \<lparr>scale = binary64 (1 / 10), offset = \<lparr>px = - 135, py = 7\<rparr>\<rparr>)
       = binary64 (1 / 10)
   \<and> handleZoomChange binary64 True 800 600 ZoomOut
            \<lparr>scale = binary64 (1 / 10), offset = \<lparr>px = - 135, py = 7\<rparr>\<rparr>
       = \<lparr>scale = binary64 (1 / 10), offset = \<lparr>px = - 135, py = 7\<rparr>\<rparr>"
proof -
  let ?e = "\<lparr>offsetX = 100, offsetY = 0, deltaY = - 1\<rparr>"
  let ?v = "\<lparr>scale = 10, offset = \<lparr>px = 1 / 10, py = 0\<rparr>\<rparr>"
  let ?u = "\<lparr>scale = 1 / 10, offset = \<lparr>px = 3 / 10, py = 7\<rparr>\<rparr>"
  let ?f = "\<lparr>offsetX = 100, offsetY = 40, deltaY = - 1\<rparr>"
  let ?w = "\<lparr>scale = 10, offset = \<lparr>px = - 135, py = 7\<rparr>\<rparr>"
  let ?z = "\<lparr>scale = binary64 (1 / 10), offset = \<lparr>px = - 135, py = 7\<rparr>\<rparr>"
  have w: "scale (handleWheel exact ?e ?v) = 10"
    by (simp add: handleWheel_scale exact_def)
  have b: "scale (handleZoomChange exact True 800 600 ZoomOut ?u) = 1 / 10"
    by (simp add: handleZoomChange_scale exact_def)
  have d: "scale (handleWheel binary64 ?f ?w) = 10"
    unfolding handleWheel_scale by (simp add: binary64_eval)
  have r: "binary64 (- 135) = - 135" "binary64 7 = 7"
    "binary64 (100 - (- 135)) = 100 - (- 135)" "binary64 (40 - 7) = 40 - 7"
    by (simp_all add: binary64_eval)
  have c: "binary64 (binary64 (800 / 2) - (- 135)) = binary64 (800 / 2) - (- 135)"
    "binary64 (binary64 (600 / 2) - 7) = binary64 (600 / 2) - 7"
    by (simp_all add: binary64_eval)
  have z0: "scale ?z \<noteq> 0"
    by (simp add: binary64_tenth)
  have z1: "scale (handleZoomChange binary64 True 800 600 ZoomOut ?z) = scale ?z"
    unfolding handleZoomChange_scale by (simp add: binary64_eval)
  have "handleWheel exact ?e ?v = ?v"
    using zoom_with_unchanged_scale_keeps_transform [of ?v ?e ZoomOut True 800 600] w
    by simp
  moreover have "handleZoomChange exact True 800 600 ZoomOut ?u = ?u"
    using zoom_with_unchanged_scale_keeps_transform [of ?u ?e ZoomOut True 800 600] b
    by simp
  moreover have "handleWheel binary64 ?f ?w = ?w"
    using zoom_with_unchanged_scale_keeps_transform [of ?w ?f ZoomOut True 800 600] d r
    by simp
  moreover have "handleZoomChange binary64 True 800 600 ZoomOut ?z = ?z"
    using zoom_with_unchanged_scale_keeps_transform [of ?z ?f ZoomOut True 800 600] z0 z1 r c
    by simp
  ultimately show ?thesis
    using w b d r z1 by simp
qed

subsection \<open>Download\<close>

lemma map_replace_absent:
  "a \<notin> set s \<Longrightarrow> map (\<lambda>c. if c = a then b else c) s = s"
  by (induction s) auto

lemma replaceFirst_at_most_once:
  "length (filter (\<lambda>c. c = a) s) \<le> 1 \<Longrightarrow>
     replaceFirst a b s = map (\<lambda>c. if c = a then b else c) s"
proof (induction s)
  case Nil
  then show ?case by simp
next
  case (Cons c cs)
  show ?case
  proof (cases "c = a")
    case True
    then have "filter (\<lambda>c. c = a) cs = []"
      using Cons.prems by simp
    then have "a \<notin> set cs"
      by (auto simp: filter_empty_conv)
    then show ?thesis
      using True by (simp add: map_replace_absent)
  next
    case False
    then show ?thesis
      using Cons by simp
  qed
qed

lemma hyphenate_no_space:
  "of_char CHR '' '' \<notin> set s \<Longrightarrow> hyphenate s = s"
  unfolding hyphenate_def by (rule map_replace_absent)

lemmas name_eval = getFileName_def specFileName_def hyphenate_def asciiLower_def lit_def
  woodFlat_def softWoodFlat_def

text \<open>
  C8 as stated fails: for the material "Soft Wood" and the design type "2D Flat" the name
  is "cnc-design-soft wood-2d-flat.png". The space of the material is still there; only
  the design type goes through \<open>replace\<close>. So the name is not, for every lower-casing
  function, metadata and extension, the name the specification words.
\<close>

theorem getFileName_keeps_spaces_of_material:
  "material softWoodFlat = lit ''Soft Wood'' \<and> designType softWoodFlat = lit ''2D Flat''
   \<and> asciiLower (lit ''Soft Wood'') = lit ''soft wood''
   \<and> asciiLower (lit ''2D Flat'') = lit ''2d flat''
   \<and> getFileName asciiLower softWoodFlat (lit ''png'') = lit ''cnc-design-soft wood-2d-flat.png''
   \<and> specFileName asciiLower softWoodFlat (lit ''png'') = lit ''cnc-design-soft-wood-2d-flat.png''
   \<and> getFileName asciiLower softWoodFlat (lit ''png'')
       \<noteq> specFileName asciiLower softWoodFlat (lit ''png'')
   \<and> of_char CHR '' '' \<in> set (getFileName asciiLower softWoodFlat (lit ''png''))
   \<and> \<not> (\<forall>toLowerCase options ext.
          getFileName toLowerCase options ext = specFileName toLowerCase options ext)"
proof -
  have a: "getFileName asciiLower softWoodFlat (lit ''png'') = lit ''cnc-design-soft wood-2d-flat.png''"
    and b: "specFileName asciiLower softWoodFlat (lit ''png'') = lit ''cnc-design-soft-wood-2d-flat.png''"
    by (simp_all add: name_eval)
  have ne: "getFileName asciiLower softWoodFlat (lit ''png'')
       \<noteq> specFileName asciiLower softWoodFlat (lit ''png'')"
    unfolding a b by (simp add: lit_def)
  then have "\<not> (\<forall>toLowerCase options ext.
          getFileName toLowerCase options ext = specFileName toLowerCase options ext)"
    by blast
  moreover have "of_char CHR '' '' \<in> set (getFileName asciiLower softWoodFlat (lit ''png''))"
    unfolding a by (simp add: lit_def)
  moreover have "material softWoodFlat = lit ''Soft Wood'' \<and> designType softWoodFlat = lit ''2D Flat''
      \<and> asciiLower (lit ''Soft Wood'') = lit ''soft wood''
      \<and> asciiLower (lit ''2D Flat'') = lit ''2d flat''"
    by (simp add: name_eval)
  ultimately show ?thesis
    using a b ne by blast
qed

text \<open>
  C8, amended. Whatever the material, the design type and the extension: when the
  lower-cased design type has at most one space, the name is "cnc-design-", the
  lower-cased material, a hyphen, the lower-cased design type with its space replaced by
  a hyphen, a dot and the extension; when the lower-cased material has no space this is
  the name the specification words. The name depends on the material and the design
  type only. Lower-casing is the built-in \<open>toLowerCase\<close>, for which the statement holds
  as for any function on strings.
\<close>

theorem getFileName_from_metadata:
  "(length (filter (\<lambda>c. c = of_char CHR '' '') (toLowerCase (designType options))) \<le> 1 \<longrightarrow>
      getFileName toLowerCase options ext =
        lit ''cnc-design-'' @ toLowerCase (material options) @ lit ''-''
        @ hyphenate (toLowerCase (designType options)) @ lit ''.'' @ ext)
   \<and> (of_char CHR '' '' \<notin> set (toLowerCase (material options))
        \<and> length (filter (\<lambda>c. c = of_char CHR '' '') (toLowerCase (designType options))) \<le> 1 \<longrightarrow>
        getFileName toLowerCase options ext = specFileName toLowerCase options ext)
   \<and> (material options = material options' \<and> designType options = designType options' \<longrightarrow>
        getFileName toLowerCase options ext = getFileName toLowerCase options' ext)"
proof -
  have one: "getFileName toLowerCase options ext =
        lit ''cnc-design-'' @ toLowerCase (material options) @ lit ''-''
        @ hyphenate (toLowerCase (designType options)) @ lit ''.'' @ ext"
    if "length (filter (\<lambda>c. c = of_char CHR '' '') (toLowerCase (designType options))) \<le> 1"
    unfolding getFileName_def hyphenate_def
    using replaceFirst_at_most_once [OF that] by simp
  have spec: "getFileName toLowerCase options ext = specFileName toLowerCase options ext"
    if "of_char CHR '' '' \<notin> set (toLowerCase (material options))"
      and "length (filter (\<lambda>c. c = of_char CHR '' '') (toLowerCase (designType options))) \<le> 1"
    unfolding one [OF that(2)] specFileName_def hyphenate_no_space [OF that(1)] by simp
  have same: "getFileName toLowerCase options ext = getFileName toLowerCase options' ext"
    if "material options = material options'" and "designType options = designType options'"
    using that by (simp add: getFileName_def)
  show ?thesis
    using one spec same by blast
qed

theorem getFileName_from_metadata_witness:
  "asciiLower (lit ''ABCDEFGHIJKLMNOPQRSTUVWXYZ 0123456789-_.'')
     = lit ''abcdefghijklmnopqrstuvwxyz 0123456789-_.''
   \<and> asciiLower (designType woodFlat) = lit ''2d flat''
   \<and> asciiLower (material woodFlat) = lit ''wood''
   \<and> length (filter (\<lambda>c. c = of_char CHR '' '') (asciiLower (designType woodFlat))) \<le> 1
   \<and> of_char CHR '' '' \<notin> set (asciiLower (material woodFlat))
   \<and> getFileName asciiLower woodFlat (lit ''dxf'') = lit ''cnc-design-wood-2d-flat.dxf''
   \<and> specFileName asciiLower woodFlat (lit ''dxf'') = lit ''cnc-design-wood-2d-flat.dxf''
   \<and> getFileName asciiLower (woodFlat\<lparr>prompt := lit ''a rose''\<rparr>) (lit ''dxf'')
       = getFileName asciiLower woodFlat (lit ''dxf'')"
proof -
  have l: "asciiLower (lit ''ABCDEFGHIJKLMNOPQRSTUVWXYZ 0123456789-_.'')
       = lit ''abcdefghijklmnopqrstuvwxyz 0123456789-_.''"
    "asciiLower (designType woodFlat) = lit ''2d flat''"
    "asciiLower (material woodFlat) = lit ''wood''"
    by (simp_all add: name_eval)
  have a: "length (filter (\<lambda>c. c = of_char CHR '' '') (asciiLower (designType woodFlat))) \<le> 1"
    and b: "of_char CHR '' '' \<notin> set (asciiLower (material woodFlat))"
    unfolding l by (simp_all add: lit_def)
  have c: "specFileName asciiLower woodFlat (lit ''dxf'') = lit ''cnc-design-wood-2d-flat.dxf''"
    by (simp add: name_eval)
  have d: "material (woodFlat\<lparr>prompt := lit ''a rose''\<rparr>) = material woodFlat
      \<and> designType (woodFlat\<lparr>prompt := lit ''a rose''\<rparr>) = designType woodFlat"
    by simp
  have "getFileName asciiLower woodFlat (lit ''dxf'') = specFileName asciiLower woodFlat (lit ''dxf'')"
    using getFileName_from_metadata [of asciiLower woodFlat "lit ''dxf''" woodFlat] a b by blast
  moreover have "getFileName asciiLower (woodFlat\<lparr>prompt := lit ''a rose''\<rparr>) (lit ''dxf'')
      = getFileName asciiLower woodFlat (lit ''dxf'')"
    using getFileName_from_metadata
      [of asciiLower "woodFlat\<lparr>prompt := lit ''a rose''\<rparr>" "lit ''dxf''" woodFlat] d
    by blast
  ultimately show ?thesis
    using l a b c by simp
qed

lemma isBlack_dark_byte:
  "isBlack img c r \<Longrightarrow> \<exists>v \<in> set (data img). v < threshold"
  by (auto simp: isBlack_def byteAt_def Let_def split: if_splits)

lemma handleDownload_state:
  "fst (handleDownload toLowerCase tempCtx put options format s) =
     (if canvas s \<noteq> None \<and> tempCtx then s\<lparr>isDownloadMenuOpen := False\<rparr> else s)"
  by (auto simp: handleDownload_def Let_def split: option.splits)

text \<open>
  C9 as stated fails: when the temporary canvas gives no 2D context the handler returns
  before \<open>setIsDownloadMenuOpen(false)\<close>, and an open menu stays open.
\<close>

theorem handleDownload_without_context_leaves_menu_open:
  "canvas menuOpenState = Some pixelB \<and> isDownloadMenuOpen menuOpenState
   \<and> handleDownload asciiLower False putWhole woodFlat Png menuOpenState = (menuOpenState, None)
   \<and> isDownloadMenuOpen (fst (handleDownload asciiLower False putWhole woodFlat Png menuOpenState))"
  by (simp add: handleDownload_def menuOpenState_def editedState_def initialState_def)

text \<open>
  C9, amended. For every format, \<open>handleDownload\<close> leaves the state as it was except
  that it closes the download menu when a canvas element is mounted and the temporary
  canvas gives a 2D context; otherwise it changes nothing. History, index, view
  transform, tool, line width, drawing and panning flags, canvas and context are the
  same before and after in every case.
\<close>

theorem handleDownload_changes_only_the_menu_flag:
  "fst (handleDownload toLowerCase tempCtx put options format s) =
     (if canvas s \<noteq> None \<and> tempCtx then s\<lparr>isDownloadMenuOpen := False\<rparr> else s)
   \<and> history (fst (handleDownload toLowerCase tempCtx put options format s)) = history s
   \<and> historyIndex (fst (handleDownload toLowerCase tempCtx put options format s)) = historyIndex s
   \<and> viewTransform (fst (handleDownload toLowerCase tempCtx put options format s)) = viewTransform s
   \<and> tool (fst (handleDownload toLowerCase tempCtx put options format s)) = tool s
   \<and> lineWidth (fst (handleDownload toLowerCase tempCtx put options format s)) = lineWidth s
   \<and> isDrawing (fst (handleDownload toLowerCase tempCtx put options format s)) = isDrawing s
   \<and> isPanning (fst (handleDownload toLowerCase tempCtx put options format s)) = isPanning s
   \<and> canvas (fst (handleDownload toLowerCase tempCtx put options format s)) = canvas s
   \<and> hasContext (fst (handleDownload toLowerCase tempCtx put options format s)) = hasContext s"
  by (simp add: handleDownload_state)

theorem handleDownload_changes_only_the_menu_flag_witness:
  "handleDownload asciiLower True putWhole woodFlat Dxf menuOpenState =
     (menuOpenState\<lparr>isDownloadMenuOpen := False\<rparr>,
      Some (lit ''cnc-design-wood-2d-flat.dxf'',
            DxfText ''0\<newline>SECTION\<newline>2\<newline>ENTITIES\<newline>0\<newline>ENDSEC\<newline>0\<newline>EOF\<newline>''))
   \<and> handleDownload asciiLower True putWhole woodFlat Jpeg menuOpenState =
     (menuOpenState\<lparr>isDownloadMenuOpen := False\<rparr>,
      Some (lit ''cnc-design-wood-2d-flat.jpeg'', DataUrl ''image/jpeg'' (Some (9 / 10)) pixelB))
   \<and> history (fst (handleDownload asciiLower True putWhole woodFlat Dxf menuOpenState)) = [pixelA, pixelB]"
proof -
  have name: "getFileName asciiLower woodFlat ext = lit ''cnc-design-wood-2d-flat.'' @ ext" for ext
    by (simp add: name_eval)
  have nb: "\<not> isBlack pixelB c r" for c r
    using isBlack_dark_byte [of pixelB c r] by (auto simp: pixelB_def threshold_def)
  have "rowSegments pixelB r = []" for r
    using nb by (simp add: rowSegments_def scanRowRuns.simps pixelB_def)
  then have dxf: "generateDxf pixelB =
      ''0\<newline>SECTION\<newline>2\<newline>ENTITIES\<newline>0\<newline>ENDSEC\<newline>0\<newline>EOF\<newline>''"
    by (simp add: generateDxf_rows)
  have st: "canvas menuOpenState = Some pixelB" "history menuOpenState = [pixelA, pixelB]"
    "historyIndex menuOpenState = 1"
    by (simp_all add: menuOpenState_def editedState_def initialState_def)
  have d: "handleDownload asciiLower True putWhole woodFlat Dxf menuOpenState =
     (menuOpenState\<lparr>isDownloadMenuOpen := False\<rparr>,
      Some (lit ''cnc-design-wood-2d-flat.dxf'',
            DxfText ''0\<newline>SECTION\<newline>2\<newline>ENTITIES\<newline>0\<newline>ENDSEC\<newline>0\<newline>EOF\<newline>''))"
    by (simp add: handleDownload_def st putWhole_def name dxf Let_def lit_def)
  have j: "handleDownload asciiLower True putWhole woodFlat Jpeg menuOpenState =
     (menuOpenState\<lparr>isDownloadMenuOpen := False\<rparr>,
      Some (lit ''cnc-design-wood-2d-flat.jpeg'', DataUrl ''image/jpeg'' (Some (9 / 10)) pixelB))"
    by (simp add: handleDownload_def st putWhole_def name Let_def lit_def)
  show ?thesis
    using handleDownload_changes_only_the_menu_flag
      [of asciiLower True putWhole woodFlat Dxf menuOpenState] d j st
    by simp
qed

end
